theory Spec2Isabelle
  imports Complex_Main
begin

section \<open>Data model\<close>

text \<open>
  The documents of \<^verbatim>\<open>models/Post\<close> and the request and response shapes of
  \<^verbatim>\<open>controllers/postController\<close>. An ObjectId is a natural number (its
  string form is compared where the controllers compare ids, and the conversion is
  injective), a Date is a number of milliseconds, and a string is a list of
  characters, one per code unit. A JavaScript number is modelled as an integer.
  The model is exact where the numbers are integral and, like the results of the
  arithmetic on them, below \<open>2 ^ 53\<close> in magnitude: this is where the counters
  of a collection lie, since an array has fewer than \<open>2 ^ 32\<close> entries. What the
  handlers do with larger or fractional numbers is outside this development.
\<close>

type_synonym objectId = nat
type_synonym date = nat

record image =
  url :: string
  publicId :: string

record comment =
  comment_id :: objectId
  userId :: objectId
  username :: string
  comment_text :: string
  comment_createdAt :: date

record likes =
  count :: int
  users :: "string list"

record post =
  post_id :: objectId
  author :: objectId
  authorUsername :: string
  authorProfilePicture :: string
  content :: "string option"
  images :: "image list"
  likes :: likes
  comments :: "comment list"
  isEdited :: bool
  editedAt :: "date option"
  createdAt :: date
  updatedAt :: date

text \<open>The fields of a user document that the post controllers read (\<^verbatim>\<open>IUser\<close>).\<close>

record userDoc =
  user_id :: objectId
  user_username :: string
  profilePicture :: "string option"

text \<open>The identity that the \<^verbatim>\<open>protect\<close> middleware attaches to a request.\<close>

record authUser =
  auth_id :: objectId
  auth_username :: string
  auth_email :: string

record multerFile =
  path :: string
  filename :: string

text \<open>
  The asset store behind \<^verbatim>\<open>config/cloudinary\<close>: the assets it holds, the
  identifiers whose deletion request fails, and the deletion requests it has
  received, oldest first.
\<close>

record cloudinary =
  assetIds :: "string list"
  unavailable :: "string list"
  deletions :: "string list"

text \<open>
  The state also says how the database carries out a sort by \<open>createdAt\<close>,
  descending: \<open>sortStage\<close> maps the documents of a collection to the order in
  which such a query returns them. The database promises a sorted permutation and
  nothing about documents with equal keys, so this is a parameter of the state and
  not a function that the model fixes.
\<close>

record state =
  postDocs :: "post list"
  userDocs :: "userDoc list"
  assetStore :: cloudinary
  sortStage :: "post list \<Rightarrow> post list"

text \<open>
  What a handler reads from the outside: the clock (\<^verbatim>\<open>new Date()\<close>) and the
  ObjectId the driver generates for the next document or subdocument. A request
  is handled at one instant: \<open>now\<close> is what the handler's own \<^verbatim>\<open>new Date()\<close>
  returns, and the time at which a save stamps the document is taken to be the
  same. None of the numbered properties below rests on the two being equal.
\<close>

record env =
  now :: date
  newId :: objectId

text \<open>
  An Express request. \<open>query_page\<close> and \<open>query_limit\<close> hold the result of
  \<^verbatim>\<open>parseInt\<close> on the query strings (\<open>None\<close> is \<^verbatim>\<open>NaN\<close>);
  \<open>body_imagesToDelete\<close> is the list that lines 464 to 473 of \<^verbatim>\<open>updatePost\<close>
  obtain from the form field (empty when the field is absent); \<open>bearer\<close> is
  the payload of a bearer token that verifies (\<open>None\<close> when the header is
  missing or the token is invalid); \<open>req_user\<close> is \<^verbatim>\<open>req.user\<close>;
  \<open>validationErrors\<close> is what \<^verbatim>\<open>validationResult(req)\<close> returns.
\<close>

record request =
  params_id :: objectId
  params_publicId :: string
  query_page :: "int option"
  query_limit :: "int option"
  body_content :: "string option"
  body_text :: "string option"
  body_imagesToDelete :: "string list"
  req_files :: "multerFile list option"
  bearer :: "authUser option"
  req_user :: "authUser option"
  validationErrors :: "string list"

record pagination =
  currentPage :: int
  totalPages :: int
  totalItems :: int
  hasMore :: bool

text \<open>
  The JSON envelope: \<open>Success status data\<close> is \<^verbatim>\<open>{success: true, data}\<close> and
  \<open>Failure status\<close> is \<^verbatim>\<open>{success: false, error}\<close>. The status codes are
  400 (validation), 401, 403 (forbidden), 404 (not found) and 500.
\<close>

datatype payload =
    PostData post
  | PostList "post list" pagination
  | LikeData likes bool
  | CommentData comment
  | ImageList "image list"
  | Message string

datatype response = Success nat payload | Failure nat

fun is_success :: "response \<Rightarrow> bool" where
  "is_success (Success _ _) = True"
| "is_success (Failure _) = False"

section \<open>Strings\<close>

text \<open>
  \<^verbatim>\<open>String.prototype.trim\<close>, which the schema option \<^verbatim>\<open>trim: true\<close> and the
  validator's \<^verbatim>\<open>.trim()\<close> apply: white space is removed at both ends. The
  white space characters are those among the characters of the type \<open>char\<close>:
  space, tab, line feed, vertical tab, form feed, carriage return and no-break
  space.
\<close>

definition is_space :: "char \<Rightarrow> bool" where
  "is_space c = (c \<in> set [CHR '' '', CHR 0x09, CHR 0x0A, CHR 0x0B, CHR 0x0C, CHR 0x0D, CHR 0xA0])"

definition trim :: "string \<Rightarrow> string" where
  "trim s = rev (dropWhile is_space (rev (dropWhile is_space s)))"

text \<open>\<^verbatim>\<open>!content\<close> for a value that is a string or \<^verbatim>\<open>undefined\<close>.\<close>

fun falsy :: "string option \<Rightarrow> bool" where
  "falsy None = True"
| "falsy (Some s) = (s = [])"

section \<open>The Post model\<close>

text \<open>\<^verbatim>\<open>Post.findById\<close> and \<^verbatim>\<open>User.findById\<close>.\<close>

definition findById :: "objectId \<Rightarrow> post list \<Rightarrow> post option" where
  "findById i ps = find (\<lambda>p. post_id p = i) ps"

definition findUserById :: "objectId option \<Rightarrow> userDoc list \<Rightarrow> userDoc option" where
  "findUserById i us = (case i of None \<Rightarrow> None | Some j \<Rightarrow> find (\<lambda>u. user_id u = j) us)"

text \<open>
  The validators that the schemas declare: \<^verbatim>\<open>required\<close> (a required string
  must not be empty) and \<^verbatim>\<open>maxlength\<close>.
\<close>

definition validImage :: "image \<Rightarrow> bool" where
  "validImage img = (url img \<noteq> [] \<and> publicId img \<noteq> [])"

definition validComment :: "comment \<Rightarrow> bool" where
  "validComment c = (username c \<noteq> [] \<and> comment_text c \<noteq> [] \<and> length (comment_text c) \<le> 500)"

definition validate :: "post \<Rightarrow> bool" where
  "validate p =
     (authorUsername p \<noteq> []
      \<and> (case content p of None \<Rightarrow> True | Some c \<Rightarrow> length c \<le> 2000)
      \<and> list_all validImage (images p)
      \<and> list_all validComment (comments p))"

text \<open>The \<^verbatim>\<open>pre('save')\<close> hook: it throws when this is false.\<close>

definition preSave :: "post \<Rightarrow> bool" where
  "preSave p = (\<not> (falsy (content p) \<and> length (images p) = 0))"

text \<open>
  \<^verbatim>\<open>post.save()\<close>: validation and the hook run first, and either of them
  throwing leaves the collection as it was (\<open>None\<close>). Otherwise the stored
  document is replaced. With \<^verbatim>\<open>timestamps: true\<close> the document's
  \<open>updatedAt\<close> is set to the time of the save when a path of the document was
  modified since it was loaded, and is left alone otherwise. A path is modified
  by the assignment of a value that differs from the one it holds, and by every
  \<^verbatim>\<open>push\<close> and \<^verbatim>\<open>splice\<close> on an array; the handler passes whether that
  happened as \<open>modified\<close>.
\<close>

definition save ::
  "date \<Rightarrow> bool \<Rightarrow> post \<Rightarrow> post list \<Rightarrow> (post \<times> post list) option" where
  "save t modified p ps =
     (if \<not> validate p \<or> \<not> preSave p then None
      else let p' = (if modified then p\<lparr>updatedAt := t\<rparr> else p)
           in Some (p', map (\<lambda>q. if post_id q = post_id p then p' else q) ps))"

text \<open>
  \<^verbatim>\<open>Post.create\<close> with the five fields that \<^verbatim>\<open>createPost\<close> passes: the schema
  defaults fill the rest, the \<^verbatim>\<open>trim\<close> setter is applied to \<open>content\<close>, and
  the document is validated, hooked and inserted at the end of the collection. An
  identifier that is already present is a duplicate key, which throws.
\<close>

definition Post_create ::
  "env \<Rightarrow> objectId \<Rightarrow> string \<Rightarrow> string option \<Rightarrow> string option \<Rightarrow> image list \<Rightarrow> post list
   \<Rightarrow> (post \<times> post list) option" where
  "Post_create e a name pic c imgs ps =
     (let p = \<lparr>post_id = newId e, author = a, authorUsername = name,
                authorProfilePicture = (case pic of None \<Rightarrow> [] | Some s \<Rightarrow> s),
                content = map_option trim c, images = imgs,
                likes = \<lparr>count = 0, users = []\<rparr>, comments = [],
                isEdited = False, editedAt = None,
                createdAt = now e, updatedAt = now e\<rparr>
      in if \<not> validate p \<or> \<not> preSave p \<or> findById (newId e) ps \<noteq> None then None
         else Some (p, ps @ [p]))"

section \<open>The asset store\<close>

text \<open>
  Modelled from the spec: the deletion of an asset in the external store, which
  \<^verbatim>\<open>config/cloudinary\<close> wraps and which is not among the sources. Section 4.2
  gives its contract: \<^verbatim>\<open>delete(storageId)\<close> returns nothing, fails with a
  deletion error, and the deletion of an asset that is already absent is not an
  error. The first component of the result is \<open>False\<close> when the deletion fails;
  the request is recorded in both cases.
\<close>

definition destroyAsset :: "string \<Rightarrow> cloudinary \<Rightarrow> bool \<times> cloudinary" where
  "destroyAsset pid c =
     (if pid \<in> set (unavailable c) then (False, c\<lparr>deletions := deletions c @ [pid]\<rparr>)
      else (True, c\<lparr>assetIds := removeAll pid (assetIds c), deletions := deletions c @ [pid]\<rparr>))"

text \<open>
  Modelled from the spec: \<^verbatim>\<open>deleteImage\<close> of \<^verbatim>\<open>config/cloudinary\<close> is
  imported by the controller but is not among the sources. Sections 4.1, 7 and 8
  say of the deletion of a post that the failure to delete an asset is logged,
  does not abort the remaining deletions and does not block the deletion of the
  record. \<^verbatim>\<open>deletePost\<close> has nothing around its calls of the helper and logs
  nothing itself, so it is the helper that catches the failure and logs it:
  \<^verbatim>\<open>deleteImage\<close> requests the deletion and returns, also when the deletion
  fails. The first component of the result, \<open>False\<close> when the call throws, is
  what the \<^verbatim>\<open>try\<close> blocks of the handlers react to; with this helper it is
  \<open>True\<close>.
\<close>

definition deleteImage :: "string \<Rightarrow> cloudinary \<Rightarrow> bool \<times> cloudinary" where
  "deleteImage pid c = (True, snd (destroyAsset pid c))"

section \<open>The controllers\<close>

definition toImage :: "multerFile \<Rightarrow> image" where
  "toImage f = \<lparr>url = path f, publicId = filename f\<rparr>"

definition noFiles :: "multerFile list option \<Rightarrow> bool" where
  "noFiles fs = (case fs of None \<Rightarrow> True | Some xs \<Rightarrow> length xs = 0)"

definition createPost :: "env \<Rightarrow> state \<Rightarrow> request \<Rightarrow> response \<times> state" where
  "createPost e st req =
     (if validationErrors req \<noteq> [] then (Failure 400, st)
      else if falsy (body_content req) \<and> noFiles (req_files req) then (Failure 400, st)
      else (case findUserById (map_option auth_id (req_user req)) (userDocs st) of
              None \<Rightarrow> (Failure 404, st)
            | Some u \<Rightarrow>
                let imgs = (case req_files req of None \<Rightarrow> [] | Some fs \<Rightarrow> map toImage fs)
                in (case Post_create e (user_id u) (user_username u) (profilePicture u)
                          (body_content req) imgs (postDocs st) of
                      None \<Rightarrow> (Failure 500, st)
                    | Some (p, ps) \<Rightarrow> (Success 201 (PostData p), st\<lparr>postDocs := ps\<rparr>))))"

text \<open>
  Lines 345 to 355 of \<^verbatim>\<open>likePost\<close>: the toggle on the loaded document.
\<close>

definition toggleLike :: "string \<Rightarrow> post \<Rightarrow> post" where
  "toggleLike name p =
     (if name \<in> set (users (likes p))
      then p\<lparr>likes := \<lparr>count = max 0 (count (likes p) - 1),
                        users = filter (\<lambda>u. u \<noteq> name) (users (likes p))\<rparr>\<rparr>
      else p\<lparr>likes := \<lparr>count = count (likes p) + 1,
                        users = users (likes p) @ [name]\<rparr>\<rparr>)"

text \<open>
  \<^verbatim>\<open>likePost\<close>. Either branch of the toggle changes the list of users, so the
  document is modified when it is saved.
\<close>

definition likePost :: "env \<Rightarrow> state \<Rightarrow> request \<Rightarrow> response \<times> state" where
  "likePost e st req =
     (case findById (params_id req) (postDocs st) of
        None \<Rightarrow> (Failure 404, st)
      | Some p \<Rightarrow>
          (case map_option auth_username (req_user req) of
             None \<Rightarrow> (Failure 401, st)
           | Some name \<Rightarrow>
               if name = [] then (Failure 401, st)
               else let hasLiked = (name \<in> set (users (likes p)))
                    in (case save (now e) True (toggleLike name p) (postDocs st) of
                          None \<Rightarrow> (Failure 500, st)
                        | Some (p', ps) \<Rightarrow>
                            (Success 200 (LikeData (likes p') (\<not> hasLiked)),
                             st\<lparr>postDocs := ps\<rparr>))))"

text \<open>
  The feed query \<^verbatim>\<open>Post.find().sort({ createdAt: -1 })\<close> names one sort key
  and no second one: the order of documents with equal \<open>createdAt\<close> is the
  database's choice, which the state holds.
\<close>

definition feedOrder :: "state \<Rightarrow> post list" where
  "feedOrder st = sortStage st (postDocs st)"

text \<open>\<^verbatim>\<open>parseInt(x) || d\<close>: the default replaces \<^verbatim>\<open>NaN\<close> and 0.\<close>

definition orDefault :: "int option \<Rightarrow> int \<Rightarrow> int" where
  "orDefault v d = (case v of None \<Rightarrow> d | Some n \<Rightarrow> if n = 0 then d else n)"

text \<open>
  \<^verbatim>\<open>getPosts\<close>. \<^verbatim>\<open>Math.ceil(totalPosts / limit)\<close> is written with integer
  division, which rounds down (\<open>limit\<close> is never 0 here). The driver rejects a
  negative skip, and reads a negative limit as its absolute value.
\<close>

definition getPosts :: "state \<Rightarrow> request \<Rightarrow> response \<times> state" where
  "getPosts st req =
     (let page = orDefault (query_page req) 1;
          limit = orDefault (query_limit req) 10;
          skip = (page - 1) * limit;
          totalPosts = int (length (postDocs st))
      in if skip < 0 then (Failure 500, st)
         else let posts = take (nat \<bar>limit\<bar>) (drop (nat skip) (feedOrder st));
                  pages = - ((- totalPosts) div limit)
              in (Success 200
                    (PostList posts
                       \<lparr>currentPage = page, totalPages = pages, totalItems = totalPosts,
                        hasMore = (page < pages)\<rparr>),
                  st))"

definition getPost :: "state \<Rightarrow> request \<Rightarrow> response \<times> state" where
  "getPost st req =
     (case findById (params_id req) (postDocs st) of
        None \<Rightarrow> (Failure 404, st)
      | Some p \<Rightarrow> (Success 200 (PostData p), st))"

text \<open>
  \<^verbatim>\<open>addComment\<close>. The comment schema trims \<open>text\<close> when the subdocument is
  built; a missing \<open>text\<close> leaves the required field empty. The push modifies
  the document.
\<close>

definition addComment :: "env \<Rightarrow> state \<Rightarrow> request \<Rightarrow> response \<times> state" where
  "addComment e st req =
     (if validationErrors req \<noteq> [] then (Failure 400, st)
      else (case findById (params_id req) (postDocs st) of
              None \<Rightarrow> (Failure 404, st)
            | Some p \<Rightarrow>
                (case findUserById (map_option auth_id (req_user req)) (userDocs st) of
                   None \<Rightarrow> (Failure 404, st)
                 | Some u \<Rightarrow>
                     let newComment =
                           \<lparr>comment_id = newId e, userId = user_id u, username = user_username u,
                            comment_text = (case body_text req of None \<Rightarrow> [] | Some t \<Rightarrow> trim t),
                            comment_createdAt = now e\<rparr>
                     in (case save (now e) True (p\<lparr>comments := comments p @ [newComment]\<rparr>)
                               (postDocs st) of
                           None \<Rightarrow> (Failure 500, st)
                         | Some (p', ps) \<Rightarrow>
                             (Success 201 (CommentData (last (comments p'))),
                              st\<lparr>postDocs := ps\<rparr>)))))"

text \<open>
  The loop of lines 476 to 481 of \<^verbatim>\<open>updatePost\<close>: for each identifier, the
  asset is deleted and then the entries with that identifier leave the loaded
  document. A deletion that throws ends the loop (first component \<open>False\<close>).
\<close>

fun deleteListed :: "string list \<Rightarrow> post \<Rightarrow> cloudinary \<Rightarrow> bool \<times> post \<times> cloudinary" where
  "deleteListed [] p c = (True, p, c)"
| "deleteListed (pid # pids) p c =
     (case deleteImage pid c of
        (False, c') \<Rightarrow> (False, p, c')
      | (True, c') \<Rightarrow>
          deleteListed pids (p\<lparr>images := filter (\<lambda>img. publicId img \<noteq> pid) (images p)\<rparr>) c')"

text \<open>
  Whether \<^verbatim>\<open>updatePost\<close> has modified a path of the loaded document \<open>p\<close>
  when it reaches \<^verbatim>\<open>save\<close>, \<open>p1\<close> being the document after the loop: an
  assignment in the loop removed an image, images were pushed, or the content,
  \<open>isEdited\<close> or \<open>editedAt\<close> was assigned a value it did not hold.
\<close>

definition updateModifies :: "env \<Rightarrow> request \<Rightarrow> post \<Rightarrow> post \<Rightarrow> bool" where
  "updateModifies e req p p1 =
     (images p1 \<noteq> images p
      \<or> \<not> noFiles (req_files req)
      \<or> (case body_content req of None \<Rightarrow> False | Some t \<Rightarrow> Some (trim t) \<noteq> content p)
      \<or> \<not> isEdited p
      \<or> editedAt p \<noteq> Some (now e))"

definition updatePost :: "env \<Rightarrow> state \<Rightarrow> request \<Rightarrow> response \<times> state" where
  "updatePost e st req =
     (case findById (params_id req) (postDocs st) of
        None \<Rightarrow> (Failure 404, st)
      | Some p \<Rightarrow>
          if Some (author p) \<noteq> map_option auth_id (req_user req) then (Failure 403, st)
          else (case deleteListed (body_imagesToDelete req) p (assetStore st) of
                  (False, _, c) \<Rightarrow> (Failure 500, st\<lparr>assetStore := c\<rparr>)
                | (True, p1, c) \<Rightarrow>
                    let p2 = (case req_files req of
                                None \<Rightarrow> p1
                              | Some fs \<Rightarrow>
                                  if length fs > 0
                                  then p1\<lparr>images := images p1 @ map toImage fs\<rparr> else p1);
                        p3 = (case body_content req of
                                None \<Rightarrow> p2
                              | Some t \<Rightarrow> p2\<lparr>content := Some (trim t)\<rparr>)
                    in if falsy (content p3) \<and> length (images p3) = 0
                       then (Failure 400, st\<lparr>assetStore := c\<rparr>)
                       else (case save (now e) (updateModifies e req p p1)
                                   (p3\<lparr>isEdited := True, editedAt := Some (now e)\<rparr>)
                                   (postDocs st) of
                               None \<Rightarrow> (Failure 500, st\<lparr>assetStore := c\<rparr>)
                             | Some (p', ps) \<Rightarrow>
                                 (Success 200 (PostData p'),
                                  st\<lparr>postDocs := ps, assetStore := c\<rparr>))))"

text \<open>\<^verbatim>\<open>Array.prototype.findIndex\<close>, with \<open>None\<close> for -1.\<close>

fun findIndex :: "('a \<Rightarrow> bool) \<Rightarrow> 'a list \<Rightarrow> nat option" where
  "findIndex P [] = None"
| "findIndex P (x # xs) = (if P x then Some 0 else map_option Suc (findIndex P xs))"

text \<open>\<^verbatim>\<open>xs.splice(i, 1)\<close> for an index inside the array.\<close>

definition splice1 :: "nat \<Rightarrow> 'a list \<Rightarrow> 'a list" where
  "splice1 i xs = take i xs @ drop (Suc i) xs"

text \<open>\<^verbatim>\<open>deletePostImage\<close>. The splice modifies the document.\<close>

definition deletePostImage :: "env \<Rightarrow> state \<Rightarrow> request \<Rightarrow> response \<times> state" where
  "deletePostImage e st req =
     (case findById (params_id req) (postDocs st) of
        None \<Rightarrow> (Failure 404, st)
      | Some p \<Rightarrow>
          if Some (author p) \<noteq> map_option auth_id (req_user req) then (Failure 403, st)
          else (case findIndex (\<lambda>img. publicId img = params_publicId req) (images p) of
                  None \<Rightarrow> (Failure 404, st)
                | Some imageIndex \<Rightarrow>
                    if falsy (content p) \<and> length (images p) = 1 then (Failure 400, st)
                    else (case deleteImage (params_publicId req) (assetStore st) of
                            (False, c) \<Rightarrow> (Failure 500, st\<lparr>assetStore := c\<rparr>)
                          | (True, c) \<Rightarrow>
                              (case save (now e) True
                                      (p\<lparr>images := splice1 imageIndex (images p)\<rparr>)
                                      (postDocs st) of
                                 None \<Rightarrow> (Failure 500, st\<lparr>assetStore := c\<rparr>)
                               | Some (p', ps) \<Rightarrow>
                                   (Success 200 (PostData p'),
                                    st\<lparr>postDocs := ps, assetStore := c\<rparr>)))))"

definition uploadImages :: "state \<Rightarrow> request \<Rightarrow> response \<times> state" where
  "uploadImages st req =
     (case req_files req of
        None \<Rightarrow> (Failure 400, st)
      | Some fs \<Rightarrow>
          if length fs = 0 then (Failure 400, st)
          else (Success 200 (ImageList (map toImage fs)), st))"

text \<open>
  The loop of lines 653 to 656 of \<^verbatim>\<open>deletePost\<close>: one deletion request per
  image, in order, with nothing around the call to catch what it throws.
\<close>

fun deleteAll :: "image list \<Rightarrow> cloudinary \<Rightarrow> bool \<times> cloudinary" where
  "deleteAll [] c = (True, c)"
| "deleteAll (img # imgs) c =
     (case deleteImage (publicId img) c of
        (False, c') \<Rightarrow> (False, c')
      | (True, c') \<Rightarrow> deleteAll imgs c')"

text \<open>\<^verbatim>\<open>post.deleteOne()\<close>.\<close>

definition deleteOne :: "post \<Rightarrow> post list \<Rightarrow> post list" where
  "deleteOne p ps = filter (\<lambda>q. post_id q \<noteq> post_id p) ps"

definition deletePost :: "state \<Rightarrow> request \<Rightarrow> response \<times> state" where
  "deletePost st req =
     (case findById (params_id req) (postDocs st) of
        None \<Rightarrow> (Failure 404, st)
      | Some p \<Rightarrow>
          if Some (author p) \<noteq> map_option auth_id (req_user req) then (Failure 403, st)
          else (case deleteAll (images p) (assetStore st) of
                  (False, c) \<Rightarrow> (Failure 500, st\<lparr>assetStore := c\<rparr>)
                | (True, c) \<Rightarrow>
                    (Success 200 (Message ''Post deleted successfully''),
                     st\<lparr>postDocs := deleteOne p (postDocs st), assetStore := c\<rparr>)))"

section \<open>Middleware and routes\<close>

text \<open>
  \<^verbatim>\<open>protect\<close>: a request without a valid bearer token, or whose user no
  longer exists, is answered with 401 (\<open>None\<close>); otherwise the identity is
  attached to the request.
\<close>

definition protect :: "state \<Rightarrow> request \<Rightarrow> request option" where
  "protect st req =
     (case bearer req of
        None \<Rightarrow> None
      | Some u \<Rightarrow>
          (case findUserById (Some (auth_id u)) (userDocs st) of
             None \<Rightarrow> None
           | Some _ \<Rightarrow> Some (req\<lparr>req_user := Some u\<rparr>)))"

text \<open>
  \<^verbatim>\<open>createPostValidation\<close>: \<open>content\<close> is optional; when present it is
  trimmed in place and must not exceed 2000 characters.
\<close>

definition createPostValidation :: "request \<Rightarrow> request" where
  "createPostValidation req =
     (case body_content req of
        None \<Rightarrow> req\<lparr>validationErrors := []\<rparr>
      | Some c \<Rightarrow>
          req\<lparr>body_content := Some (trim c),
              validationErrors :=
                (if length (trim c) > 2000 then [''Content cannot exceed 2000 characters'']
                 else [])\<rparr>)"

text \<open>
  \<^verbatim>\<open>commentValidation\<close>: \<open>text\<close> is trimmed in place (a missing field
  becomes the empty string), must not be empty and must not exceed 500 characters.
\<close>

definition commentValidation :: "request \<Rightarrow> request" where
  "commentValidation req =
     (let t = (case body_text req of None \<Rightarrow> [] | Some s \<Rightarrow> trim s)
      in req\<lparr>body_text := Some t,
             validationErrors :=
               (if t = [] then [''Comment text is required''] else [])
               @ (if length t > 500 then [''Comment cannot exceed 500 characters''] else [])\<rparr>)"

text \<open>
  The routes of \<^verbatim>\<open>routes/postRoutes\<close>, each with its middleware chain. The
  upload middleware is present through its result, the files of the request.
\<close>

datatype endpoint =
    GetPosts | GetPost | CreatePost | UpdatePost | UploadImages
  | DeletePostImage | LikePost | AddComment | DeletePost

fun router :: "endpoint \<Rightarrow> env \<Rightarrow> state \<Rightarrow> request \<Rightarrow> response \<times> state" where
  "router GetPosts e st req = getPosts st req"
| "router GetPost e st req = getPost st req"
| "router CreatePost e st req =
     (case protect st req of
        None \<Rightarrow> (Failure 401, st)
      | Some r \<Rightarrow> createPost e st (createPostValidation r))"
| "router UpdatePost e st req =
     (case protect st req of None \<Rightarrow> (Failure 401, st) | Some r \<Rightarrow> updatePost e st r)"
| "router UploadImages e st req =
     (case protect st req of None \<Rightarrow> (Failure 401, st) | Some r \<Rightarrow> uploadImages st r)"
| "router DeletePostImage e st req =
     (case protect st req of None \<Rightarrow> (Failure 401, st) | Some r \<Rightarrow> deletePostImage e st r)"
| "router LikePost e st req =
     (case protect st req of None \<Rightarrow> (Failure 401, st) | Some r \<Rightarrow> likePost e st r)"
| "router AddComment e st req =
     (case protect st req of
        None \<Rightarrow> (Failure 401, st)
      | Some r \<Rightarrow> addComment e st (commentValidation r))"
| "router DeletePost e st req =
     (case protect st req of None \<Rightarrow> (Failure 401, st) | Some r \<Rightarrow> deletePost st r)"

section \<open>Properties of documents and requests\<close>

text \<open>
  What the database promises of a sort by \<open>createdAt\<close>, descending: the answer
  has the documents of the collection, each as often as the collection has it, and
  no document comes before one that was created later.
\<close>

definition sortsByCreatedAt :: "(post list \<Rightarrow> post list) \<Rightarrow> bool" where
  "sortsByCreatedAt f =
     (\<forall>ps. (\<forall>p. count_list (f ps) p = count_list ps p)
          \<and> sorted_wrt (\<lambda>a b. createdAt b \<le> createdAt a) (f ps))"

text \<open>
  The likes of a post are consistent when the counter is the number of distinct
  user names, is not negative, and no user name is listed twice.
\<close>

definition likesConsistent :: "likes \<Rightarrow> bool" where
  "likesConsistent l =
     (count l = int (card (set (users l))) \<and> 0 \<le> count l \<and> distinct (users l))"

text \<open>
  The invariant of a post: its content is not empty after trimming, or it has an
  image.
\<close>

definition emptyAfterTrim :: "string option \<Rightarrow> bool" where
  "emptyAfterTrim c = (case c of None \<Rightarrow> True | Some s \<Rightarrow> trim s = [])"

definition postInvariant :: "post \<Rightarrow> bool" where
  "postInvariant p = (\<not> emptyAfterTrim (content p) \<or> images p \<noteq> [])"

text \<open>
  A content is in stored form when trimming does not change it. Every content that
  the model writes went through the schema's \<^verbatim>\<open>trim\<close> setter, so the
  documents of a collection that only the application writes are in stored form.
\<close>

definition storedForm :: "post \<Rightarrow> bool" where
  "storedForm p = (case content p of None \<Rightarrow> True | Some s \<Rightarrow> trim s = s)"

text \<open>
  The document that steps (a) to (c) of an update are to produce, in closed form:
  the images whose identifier is listed are removed, the new images follow the
  remaining ones, and a content that is provided replaces the old one, trimmed.
\<close>

definition updatedDoc :: "request \<Rightarrow> post \<Rightarrow> post" where
  "updatedDoc req p =
     p\<lparr>images := filter (\<lambda>img. publicId img \<notin> set (body_imagesToDelete req)) (images p)
                  @ (case req_files req of None \<Rightarrow> [] | Some fs \<Rightarrow> map toImage fs),
       content := (case body_content req of None \<Rightarrow> content p | Some t \<Rightarrow> Some (trim t))\<rparr>"

text \<open>
  The asset store after the deletion requests \<open>ids\<close>, made in this order, have
  all succeeded.
\<close>

definition afterDeletions :: "string list \<Rightarrow> cloudinary \<Rightarrow> cloudinary" where
  "afterDeletions ids c =
     c\<lparr>assetIds := filter (\<lambda>a. a \<notin> set ids) (assetIds c), deletions := deletions c @ ids\<rparr>"

text \<open>
  The asset store after the deletion requests \<open>ids\<close>, made in this order,
  whether they succeed or not: the assets whose deletion fails remain.
\<close>

definition afterRequests :: "string list \<Rightarrow> cloudinary \<Rightarrow> cloudinary" where
  "afterRequests ids c =
     c\<lparr>assetIds := filter (\<lambda>a. a \<notin> set ids \<or> a \<in> set (unavailable c)) (assetIds c),
       deletions := deletions c @ ids\<rparr>"

text \<open>The post that a mutating route writes: the new one, or the one the path names.\<close>

definition target :: "endpoint \<Rightarrow> env \<Rightarrow> request \<Rightarrow> objectId" where
  "target ep e req = (if ep = CreatePost then newId e else params_id req)"

text \<open>
  A request would violate the invariant when the document it asks for has a
  content that is empty after trimming and no image: a creation without content
  and files, an update whose steps leave such a document, the deletion of the
  only image of a post without content. Likes and comments touch neither field.
\<close>

fun wouldViolate :: "endpoint \<Rightarrow> state \<Rightarrow> request \<Rightarrow> bool" where
  "wouldViolate CreatePost st req =
     (emptyAfterTrim (body_content req) \<and> noFiles (req_files req))"
| "wouldViolate UpdatePost st req =
     (case findById (params_id req) (postDocs st) of
        None \<Rightarrow> False
      | Some p \<Rightarrow> \<not> postInvariant (updatedDoc req p))"
| "wouldViolate DeletePostImage st req =
     (case findById (params_id req) (postDocs st) of
        None \<Rightarrow> False
      | Some p \<Rightarrow>
          (case findIndex (\<lambda>img. publicId img = params_publicId req) (images p) of
             None \<Rightarrow> False
           | Some i \<Rightarrow> \<not> postInvariant (p\<lparr>images := splice1 i (images p)\<rparr>)))"
| "wouldViolate _ st req = False"

text \<open>
  A request is authorised for a route when \<^verbatim>\<open>protect\<close> lets it pass and, for
  an update or the deletion of an image, the post exists and the requester is its
  author.
\<close>

definition authorised :: "endpoint \<Rightarrow> state \<Rightarrow> request \<Rightarrow> bool" where
  "authorised ep st req =
     (case protect st req of
        None \<Rightarrow> False
      | Some r \<Rightarrow>
          if ep = UpdatePost \<or> ep = DeletePostImage
          then (case findById (params_id r) (postDocs st) of
                  None \<Rightarrow> False
                | Some p \<Rightarrow> Some (author p) = map_option auth_id (req_user r))
          else True)"

text \<open>
  The shape of a mutation that ends in \<^verbatim>\<open>post.save()\<close>: the post \<open>i\<close> is
  replaced by a document that passed the hook and whose content is the old one or
  a trimmed string.
\<close>

definition savedAs :: "objectId \<Rightarrow> state \<Rightarrow> state \<Rightarrow> bool" where
  "savedAs i st st' =
     (\<exists>p q. findById i (postDocs st) = Some p \<and> preSave q \<and> post_id q = i
        \<and> (content q = content p \<or> (\<exists>t. content q = Some (trim t)))
        \<and> postDocs st' = map (\<lambda>x. if post_id x = i then q else x) (postDocs st))"

text \<open>What the invariant demands of the answer and the state a mutating route returns.\<close>

abbreviation mutationOutcome ::
  "endpoint \<Rightarrow> env \<Rightarrow> state \<Rightarrow> request \<Rightarrow> response \<Rightarrow> state \<Rightarrow> bool" where
  "mutationOutcome ep e st req resp st' \<equiv>
     (is_success resp \<longrightarrow>
          (\<exists>p. findById (target ep e req) (postDocs st') = Some p \<and> postInvariant p)
        \<and> (\<forall>q \<in> set (postDocs st'). q \<in> set (postDocs st) \<or> postInvariant q))
     \<and> (\<not> is_success resp \<longrightarrow> postDocs st' = postDocs st)
     \<and> (wouldViolate ep st req \<and> authorised ep st req
          \<and> (ep = UpdatePost \<longrightarrow>
                set (body_imagesToDelete req) \<inter> set (unavailable (assetStore st)) = {})
        \<longrightarrow> resp = Failure 400 \<and> postDocs st' = postDocs st)
     \<and> (\<forall>q \<in> set (postDocs st'). storedForm q)"

section \<open>Example data\<close>

text \<open>Two users, with the identities their tokens carry.\<close>

definition alice :: authUser where
  "alice = \<lparr>auth_id = 1, auth_username = ''alice'', auth_email = ''alice@example.org''\<rparr>"

definition bob :: authUser where
  "bob = \<lparr>auth_id = 2, auth_username = ''bob'', auth_email = ''bob@example.org''\<rparr>"

definition someUsers :: "userDoc list" where
  "someUsers = [\<lparr>user_id = 1, user_username = ''alice'', profilePicture = None\<rparr>,
                \<lparr>user_id = 2, user_username = ''bob'', profilePicture = Some ''b.png''\<rparr>]"

definition img :: "string \<Rightarrow> image" where
  "img n = \<lparr>url = ''https://cdn/'' @ n, publicId = n\<rparr>"

definition emptyCloud :: cloudinary where
  "emptyCloud = \<lparr>assetIds = [], unavailable = [], deletions = []\<rparr>"

text \<open>Requests: a blank one, and one per kind of call.\<close>

definition blankReq :: request where
  "blankReq = \<lparr>params_id = 0, params_publicId = [], query_page = None, query_limit = None,
               body_content = None, body_text = None, body_imagesToDelete = [],
               req_files = None, bearer = None, req_user = None, validationErrors = []\<rparr>"

definition postReq :: "objectId \<Rightarrow> authUser \<Rightarrow> request" where
  "postReq i u = blankReq\<lparr>params_id := i, req_user := Some u\<rparr>"

definition createReq :: "authUser \<Rightarrow> string option \<Rightarrow> multerFile list option \<Rightarrow> request" where
  "createReq u c fs = blankReq\<lparr>req_user := Some u, body_content := c, req_files := fs\<rparr>"

definition commentReq :: "objectId \<Rightarrow> authUser \<Rightarrow> string \<Rightarrow> request" where
  "commentReq i u t = blankReq\<lparr>params_id := i, req_user := Some u, body_text := Some t\<rparr>"

definition updateReq ::
  "objectId \<Rightarrow> authUser \<Rightarrow> string option \<Rightarrow> string list \<Rightarrow> multerFile list option \<Rightarrow> request" where
  "updateReq i u c dl fs =
     blankReq\<lparr>params_id := i, req_user := Some u, body_content := c,
              body_imagesToDelete := dl, req_files := fs\<rparr>"

definition imageReq :: "objectId \<Rightarrow> authUser \<Rightarrow> string \<Rightarrow> request" where
  "imageReq i u pid = blankReq\<lparr>params_id := i, req_user := Some u, params_publicId := pid\<rparr>"

definition feedReq :: "int \<Rightarrow> int \<Rightarrow> request" where
  "feedReq p l = blankReq\<lparr>query_page := Some p, query_limit := Some l\<rparr>"

text \<open>
  Requests as they reach the router, with a bearer token: a creation with one
  image and no content, a creation with a blank content and no image, and an
  update that removes the only image of post 4 and blanks its content.
\<close>

definition imagesOnlyReq :: request where
  "imagesOnlyReq =
     blankReq\<lparr>bearer := Some bob,
              req_files := Some [\<lparr>path = ''https://cdn/p'', filename = ''p''\<rparr>]\<rparr>"

definition blankPostReq :: request where
  "blankPostReq = blankReq\<lparr>bearer := Some bob, body_content := Some ''   ''\<rparr>"

definition emptyingReq :: request where
  "emptyingReq = (updateReq 4 alice (Some ''  '') [''solo''] None)\<lparr>bearer := Some alice\<rparr>"

text \<open>A post of alice as \<^verbatim>\<open>Post.create\<close> leaves it.\<close>

definition alicePost :: "objectId \<Rightarrow> date \<Rightarrow> string option \<Rightarrow> image list \<Rightarrow> post" where
  "alicePost i t c imgs =
     \<lparr>post_id = i, author = 1, authorUsername = ''alice'', authorProfilePicture = [],
      content = c, images = imgs, likes = \<lparr>count = 0, users = []\<rparr>, comments = [],
      isEdited = False, editedAt = None, createdAt = t, updatedAt = t\<rparr>"

text \<open>
  A database that returns the documents with equal \<open>createdAt\<close> in the order
  of their insertion.
\<close>

definition insertionOrder :: "post list \<Rightarrow> post list" where
  "insertionOrder ps = sort_key (\<lambda>p. - int (createdAt p)) ps"

definition emptyState :: state where
  "emptyState = \<lparr>postDocs = [], userDocs = someUsers, assetStore = emptyCloud,
      sortStage = insertionOrder\<rparr>"

text \<open>A collection whose only post lists a user while its counter is 0.\<close>

definition desyncState :: state where
  "desyncState =
     \<lparr>postDocs = [(alicePost 1 10 (Some ''hello'') [])
                    \<lparr>likes := \<lparr>count = 0, users = [''bob'']\<rparr>\<rparr>],
      userDocs = someUsers, assetStore = emptyCloud,
      sortStage = insertionOrder\<rparr>"

text \<open>A post that bob and carlos like, and a collection that holds it.\<close>

definition likedPost :: post where
  "likedPost = (alicePost 1 10 (Some ''hello'') [])
                 \<lparr>likes := \<lparr>count = 2, users = [''bob'', ''carlos'']\<rparr>\<rparr>"

definition likedState :: state where
  "likedState =
     \<lparr>postDocs = [likedPost], userDocs = someUsers, assetStore = emptyCloud,
      sortStage = insertionOrder\<rparr>"

text \<open>A post that was edited once.\<close>

definition editedPost :: post where
  "editedPost = (alicePost 3 10 (Some ''draft'') [img ''a''])
                  \<lparr>isEdited := True, editedAt := Some 15\<rparr>"

definition editedState :: state where
  "editedState = \<lparr>postDocs = [editedPost], userDocs = someUsers, assetStore = emptyCloud,
      sortStage = insertionOrder\<rparr>"

text \<open>
  A post with one image and no content, a post with a content and two images, and
  an asset store that holds the three assets.
\<close>

definition soloPost :: post where
  "soloPost = alicePost 4 10 None [img ''solo'']"

definition helloPost :: post where
  "helloPost = alicePost 5 11 (Some ''hello'') [img ''a'', img ''b'']"

definition galleryState :: state where
  "galleryState =
     \<lparr>postDocs = [soloPost, helloPost], userDocs = someUsers,
      assetStore = \<lparr>assetIds = [''solo'', ''a'', ''b''], unavailable = [], deletions = []\<rparr>,
      sortStage = insertionOrder\<rparr>"

text \<open>A post with three images, in a store where the deletion of the first one fails.\<close>

definition triplePost :: post where
  "triplePost = alicePost 6 12 None [img ''x'', img ''y'', img ''z'']"

definition brokenState :: state where
  "brokenState =
     \<lparr>postDocs = [triplePost], userDocs = someUsers,
      assetStore = \<lparr>assetIds = [''x'', ''y'', ''z''], unavailable = [''x''], deletions = []\<rparr>,
      sortStage = insertionOrder\<rparr>"

text \<open>Two posts created at the same time, and three posts created at different times.\<close>

definition tiedState :: state where
  "tiedState =
     \<lparr>postDocs = [alicePost 1 10 (Some ''first'') [], alicePost 2 10 (Some ''second'') []],
      userDocs = someUsers, assetStore = emptyCloud,
      sortStage = insertionOrder\<rparr>"

definition feedState :: state where
  "feedState =
     \<lparr>postDocs = [alicePost 1 10 (Some ''one'') [], alicePost 2 20 (Some ''two'') [],
                  alicePost 3 30 (Some ''three'') []],
      userDocs = someUsers, assetStore = emptyCloud,
      sortStage = insertionOrder\<rparr>"

lemmas example_defs = alice_def bob_def someUsers_def img_def emptyCloud_def blankReq_def
  alicePost_def postReq_def desyncState_def likedPost_def likedState_def emptyState_def
  createReq_def commentReq_def editedPost_def editedState_def
  updateReq_def imageReq_def soloPost_def helloPost_def galleryState_def triplePost_def
  brokenState_def feedReq_def tiedState_def feedState_def
  imagesOnlyReq_def blankPostReq_def emptyingReq_def

lemmas property_defs = emptyAfterTrim_def postInvariant_def storedForm_def updatedDoc_def
  afterDeletions_def target_def authorised_def savedAs_def

lemmas model_defs = findById_def findUserById_def validate_def validImage_def validComment_def
  preSave_def save_def toggleLike_def likePost_def Let_def trim_def is_space_def
  createPost_def Post_create_def noFiles_def toImage_def addComment_def

section \<open>Basic facts\<close>

lemma findById_SomeD: "findById i ps = Some p \<Longrightarrow> post_id p = i \<and> p \<in> set ps"
  by (auto simp: findById_def find_Some_iff)

lemma findById_replace:
  "findById i ps = Some q \<Longrightarrow> post_id p' = i \<Longrightarrow>
   findById i (map (\<lambda>q. if post_id q = i then p' else q) ps) = Some p'"
  by (induction ps) (auto simp: findById_def split: if_splits)

lemma findById_append_new:
  "findById i ps = None \<Longrightarrow> post_id p = i \<Longrightarrow> findById i (ps @ [p]) = Some p"
  by (induction ps) (auto simp: findById_def split: if_splits)

lemma save_SomeD:
  "save t m p ps = Some (p', ps') \<Longrightarrow>
   p' = (if m then p\<lparr>updatedAt := t\<rparr> else p) \<and> validate p \<and> preSave p
   \<and> ps' = map (\<lambda>q. if post_id q = post_id p then p' else q) ps"
  by (auto simp: save_def Let_def split: if_splits)

lemma save_modified:
  "validate p \<Longrightarrow> preSave p \<Longrightarrow>
   save t True p ps = Some (p\<lparr>updatedAt := t\<rparr>,
                            map (\<lambda>q. if post_id q = post_id p then p\<lparr>updatedAt := t\<rparr> else q) ps)"
  by (simp add: save_def Let_def)

lemma save_ok:
  "validate p \<Longrightarrow> preSave p \<Longrightarrow>
   \<exists>t'. save t m p ps = Some (p\<lparr>updatedAt := t'\<rparr>,
                          map (\<lambda>q. if post_id q = post_id p then p\<lparr>updatedAt := t'\<rparr> else q) ps)"
proof (cases m)
  case True
  assume "validate p" "preSave p"
  with True show ?thesis by (auto simp: save_def Let_def)
next
  case False
  assume "validate p" "preSave p"
  with False have "save t m p ps = Some (p\<lparr>updatedAt := updatedAt p\<rparr>,
       map (\<lambda>q. if post_id q = post_id p then p\<lparr>updatedAt := updatedAt p\<rparr> else q) ps)"
    by (simp add: save_def Let_def)
  then show ?thesis by blast
qed

lemma last_dropWhile: "dropWhile P xs \<noteq> [] \<Longrightarrow> last (dropWhile P xs) = last xs"
  by (metis last_appendR takeWhile_dropWhile_id)

lemma dropWhile_rev_dropWhile:
  assumes "xs = [] \<or> \<not> P (hd xs)"
  shows "dropWhile P (rev (dropWhile P (rev xs))) = rev (dropWhile P (rev xs))"
proof (cases "dropWhile P (rev xs) = []")
  case True
  then show ?thesis by (simp only: rev.simps dropWhile.simps)
next
  case False
  then have ne: "xs \<noteq> []" by auto
  have "hd (rev (dropWhile P (rev xs))) = last (dropWhile P (rev xs))"
    using False by (simp add: hd_rev)
  also have "\<dots> = last (rev xs)" using False by (rule last_dropWhile)
  also have "\<dots> = hd xs" using ne by (simp add: last_rev)
  finally have "\<not> P (hd (rev (dropWhile P (rev xs))))" using assms ne by simp
  then show ?thesis by (simp add: dropWhile_eq_self_iff)
qed

lemma trim_idem: "trim (trim s) = trim s"
proof -
  let ?t = "dropWhile is_space s"
  have h: "?t = [] \<or> \<not> is_space (hd ?t)" using hd_dropWhile[of is_space s] by blast
  have "dropWhile is_space (trim s) = trim s"
    unfolding trim_def using dropWhile_rev_dropWhile[of "dropWhile is_space s" is_space] h by blast
  then show ?thesis
    by (simp add: trim_def dropWhile_idem)
qed

lemma findIndex_None: "(findIndex P xs = None) = (\<forall>x \<in> set xs. \<not> P x)"
  by (induction xs) auto

lemma findIndex_Some:
  "findIndex P xs = Some i \<Longrightarrow> i < length xs \<and> P (xs ! i) \<and> (\<forall>j < i. \<not> P (xs ! j))"
proof (induction xs arbitrary: i)
  case Nil
  then show ?case by simp
next
  case (Cons x xs)
  show ?case
  proof (cases "P x")
    case True
    with Cons.prems show ?thesis by simp
  next
    case False
    with Cons.prems obtain k where k: "findIndex P xs = Some k" "i = Suc k" by auto
    from Cons.IH[OF k(1)] False k(2) show ?thesis
      by (auto simp: nth_Cons split: nat.splits)
  qed
qed

lemma deleteImage_unavailable [simp]: "unavailable (snd (deleteImage pid c)) = unavailable c"
  by (simp add: deleteImage_def destroyAsset_def)

lemma deleteImage_returns [simp]: "fst (deleteImage pid c) = True"
  by (simp add: deleteImage_def)

lemma deleteImage_available:
  "pid \<notin> set (unavailable c) \<Longrightarrow>
   deleteImage pid c
     = (True, c\<lparr>assetIds := removeAll pid (assetIds c), deletions := deletions c @ [pid]\<rparr>)"
  by (simp add: deleteImage_def destroyAsset_def)

lemma protect_SomeD:
  "protect st req = Some r \<Longrightarrow> \<exists>u. r = req\<lparr>req_user := Some u\<rparr>"
  by (auto simp: protect_def split: option.splits)

section \<open>Likes\<close>

lemma toggleLike_frame [simp]:
  "post_id (toggleLike n p) = post_id p"
  "content (toggleLike n p) = content p"
  "images (toggleLike n p) = images p"
  "isEdited (toggleLike n p) = isEdited p"
  "editedAt (toggleLike n p) = editedAt p"
  "comments (toggleLike n p) = comments p"
  "authorUsername (toggleLike n p) = authorUsername p"
  by (simp_all add: toggleLike_def)

lemma toggleLike_consistent:
  assumes "likesConsistent (likes p)"
  shows "likesConsistent (likes (toggleLike n p))"
proof (cases "n \<in> set (users (likes p))")
  case True
  have d: "distinct (users (likes p))"
    and c: "count (likes p) = int (card (set (users (likes p))))"
    using assms by (simp_all add: likesConsistent_def)
  have "set (filter (\<lambda>u. u \<noteq> n) (users (likes p))) = set (users (likes p)) - {n}"
    by auto
  moreover have "card (set (users (likes p)) - {n}) = card (set (users (likes p))) - 1"
    using True by simp
  moreover have "card (set (users (likes p))) \<ge> 1"
    using True by (metis List.finite_set One_nat_def Suc_leI card_gt_0_iff empty_iff)
  ultimately show ?thesis using True d c
    by (simp add: likesConsistent_def toggleLike_def)
next
  case False
  then show ?thesis using assms
    by (simp add: likesConsistent_def toggleLike_def)
qed

text \<open>What \<^verbatim>\<open>likePost\<close> does to a post that exists: it fails and changes nothing, or
  it stores the toggled document.\<close>

lemma likePost_cases:
  assumes "findById (params_id req) (postDocs st) = Some p"
      and "likePost e st req = (resp, st')"
  shows "(\<not> is_success resp \<and> st' = st)
       \<or> (\<exists>n. map_option auth_username (req_user req) = Some n \<and> n \<noteq> []
            \<and> validate (toggleLike n p) \<and> preSave (toggleLike n p)
            \<and> resp = Success 200 (LikeData (likes (toggleLike n p)) (n \<notin> set (users (likes p))))
            \<and> st' = st\<lparr>postDocs :=
                         map (\<lambda>q. if post_id q = params_id req
                                  then (toggleLike n p)\<lparr>updatedAt := now e\<rparr> else q)
                             (postDocs st)\<rparr>)"
  using assms findById_SomeD[OF assms(1)]
  by (auto simp: likePost_def Let_def split: option.splits if_splits prod.splits
           dest!: save_SomeD)

lemma likePost_found:
  assumes "findById (params_id req) (postDocs st) = Some p"
      and "likePost e st req = (resp, st')" and "is_success resp"
  shows "\<exists>n. map_option auth_username (req_user req) = Some n \<and> n \<noteq> []
            \<and> resp = Success 200 (LikeData (likes (toggleLike n p)) (n \<notin> set (users (likes p))))
            \<and> findById (params_id req) (postDocs st')
                = Some ((toggleLike n p)\<lparr>updatedAt := now e\<rparr>)"
proof -
  from likePost_cases[OF assms(1,2)] assms(3) obtain n where
    n: "map_option auth_username (req_user req) = Some n" "n \<noteq> []"
       "resp = Success 200 (LikeData (likes (toggleLike n p)) (n \<notin> set (users (likes p))))"
       "st' = st\<lparr>postDocs :=
                   map (\<lambda>q. if post_id q = params_id req
                            then (toggleLike n p)\<lparr>updatedAt := now e\<rparr> else q)
                       (postDocs st)\<rparr>"
    by auto
  have "findById (params_id req) (postDocs st') = Some ((toggleLike n p)\<lparr>updatedAt := now e\<rparr>)"
    unfolding n(4)
    using findById_replace[OF assms(1), of "(toggleLike n p)\<lparr>updatedAt := now e\<rparr>"]
      findById_SomeD[OF assms(1)] by simp
  with n show ?thesis by blast
qed

lemma createPost_success:
  assumes "createPost e st req = (resp, st')" and "is_success resp"
  shows "\<exists>p. resp = Success 201 (PostData p) \<and> st' = st\<lparr>postDocs := postDocs st @ [p]\<rparr>
           \<and> likes p = \<lparr>count = 0, users = []\<rparr> \<and> post_id p = newId e
           \<and> content p = map_option trim (body_content req)
           \<and> validate p \<and> preSave p \<and> findById (newId e) (postDocs st) = None"
  using assms
  by (auto simp: createPost_def Post_create_def Let_def
           split: option.splits if_splits prod.splits)

text \<open>
  C2. When the likes of a post are consistent, they are consistent again after a
  call of \<^verbatim>\<open>likePost\<close> on that post, whatever the call answers: in the stored
  document and in the likes that a successful call returns. A post that
  \<^verbatim>\<open>createPost\<close> has just created has the counter 0 and no users, which is
  consistent.
\<close>

theorem C2_likes_consistent:
  "(findById (params_id req) (postDocs st) = Some p \<and> likesConsistent (likes p)
      \<and> likePost e st req = (resp, st')
    \<longrightarrow> (\<exists>p'. findById (params_id req) (postDocs st') = Some p' \<and> likesConsistent (likes p'))
        \<and> (\<forall>l b. resp = Success 200 (LikeData l b) \<longrightarrow> likesConsistent l))
   \<and> (createPost e0 st0 req0 = (Success 201 (PostData q), st1)
    \<longrightarrow> likes q = \<lparr>count = 0, users = []\<rparr> \<and> likesConsistent (likes q))"
proof (intro conjI impI)
  assume a: "findById (params_id req) (postDocs st) = Some p \<and> likesConsistent (likes p)
      \<and> likePost e st req = (resp, st')"
  show "\<exists>p'. findById (params_id req) (postDocs st') = Some p' \<and> likesConsistent (likes p')"
  proof (cases "is_success resp")
    case True
    from likePost_found[of req st p e resp st'] a True toggleLike_consistent[of p]
    show ?thesis by auto
  next
    case False
    with likePost_cases[of req st p e resp st'] a show ?thesis by auto
  qed
  show "\<forall>l b. resp = Success 200 (LikeData l b) \<longrightarrow> likesConsistent l"
    using likePost_cases[of req st p e resp st'] a toggleLike_consistent[of p] by auto
next
  assume "createPost e0 st0 req0 = (Success 201 (PostData q), st1)"
  from createPost_success[OF this] show "likes q = \<lparr>count = 0, users = []\<rparr>" by auto
  then show "likesConsistent (likes q)" by (simp add: likesConsistent_def)
qed

theorem C2_likes_consistent_witness:
  "findById 1 (postDocs likedState) = Some likedPost
   \<and> likesConsistent (likes likedPost)
   \<and> fst (likePost \<lparr>now = 20, newId = 7\<rparr> likedState (postReq 1 bob))
       = Success 200 (LikeData \<lparr>count = 1, users = [''carlos'']\<rparr> False)
   \<and> likesConsistent \<lparr>count = 1, users = [''carlos'']\<rparr>
   \<and> likesConsistent
       (likes (the (findById 1
          (postDocs (snd (likePost \<lparr>now = 20, newId = 7\<rparr> likedState (postReq 1 bob)))))))
   \<and> is_success
       (fst (createPost \<lparr>now = 20, newId = 7\<rparr> emptyState (createReq bob (Some ''hi'') None)))
   \<and> map likes
       (postDocs (snd (createPost \<lparr>now = 20, newId = 7\<rparr> emptyState
                         (createReq bob (Some ''hi'') None))))
       = [\<lparr>count = 0, users = []\<rparr>]"
proof -
  let ?e = "\<lparr>now = 20, newId = 7\<rparr>"
  let ?r = "likePost ?e likedState (postReq 1 bob)"
  let ?c = "createPost ?e emptyState (createReq bob (Some ''hi'') None)"
  let ?q = "the (findById 7 (postDocs (snd ?c)))"
  have h5: "params_id (postReq 1 bob) = 1" by (simp add: example_defs)
  have h1: "findById (params_id (postReq 1 bob)) (postDocs likedState) = Some likedPost"
    by (simp add: example_defs model_defs)
  have h2: "likesConsistent (likes likedPost)"
    by (simp add: likesConsistent_def likedPost_def)
  have h3: "?r = (Success 200 (LikeData \<lparr>count = 1, users = [''carlos'']\<rparr> False), snd ?r)"
    by (simp add: example_defs model_defs)
  have h4: "?c = (Success 201 (PostData ?q), snd ?c)"
    by (simp add: example_defs model_defs)
  have h6: "postDocs (snd ?c) = [?q]"
    by (simp add: example_defs model_defs)
  note inst = C2_likes_consistent[of "postReq 1 bob" likedState likedPost ?e
      "Success 200 (LikeData \<lparr>count = 1, users = [''carlos'']\<rparr> False)" "snd ?r" ?e emptyState
      "createReq bob (Some ''hi'') None" ?q "snd ?c"]
  from inst h1 h2 h3
  have a: "\<exists>p'. findById (params_id (postReq 1 bob)) (postDocs (snd ?r)) = Some p'
             \<and> likesConsistent (likes p')"
    by blast
  from inst h1 h2 h3 have b: "likesConsistent \<lparr>count = 1, users = [''carlos'']\<rparr>"
    by blast
  from inst h4 have c: "likes ?q = \<lparr>count = 0, users = []\<rparr>"
    by blast
  have a': "likesConsistent (likes (the (findById 1 (postDocs (snd ?r)))))"
    using a h5 by auto
  have d: "fst ?r = Success 200 (LikeData \<lparr>count = 1, users = [''carlos'']\<rparr> False)"
    using h3 by (metis fst_conv)
  have e: "is_success (fst ?c)" using h4 by (metis fst_conv is_success.simps(1))
  have f: "map likes (postDocs (snd ?c)) = [\<lparr>count = 0, users = []\<rparr>]"
    by (subst h6) (simp add: c)
  from h1 h5 h2 d b a' e f show ?thesis by simp
qed

lemma toggleLike_twice:
  assumes "count (likes p) = int (card (set (users (likes p))))"
  shows "count (likes (toggleLike n (toggleLike n p))) = count (likes p)
       \<and> set (users (likes (toggleLike n (toggleLike n p)))) = set (users (likes p))"
proof (cases "n \<in> set (users (likes p))")
  case True
  then have "card (set (users (likes p))) \<ge> 1"
    by (metis List.finite_set One_nat_def Suc_leI card_gt_0_iff empty_iff)
  with True assms show ?thesis by (auto simp: toggleLike_def)
next
  case False
  then have "filter (\<lambda>u. u \<noteq> n) (users (likes p)) = users (likes p)"
    by (auto simp: filter_id_conv)
  with False assms show ?thesis by (auto simp: toggleLike_def)
qed

lemma toggleLike_member:
  "(n \<in> set (users (likes (toggleLike n p)))) = (n \<notin> set (users (likes p)))"
  by (auto simp: toggleLike_def)

lemma validate_toggleLike [simp]: "validate (toggleLike n p) = validate p"
  by (simp add: validate_def)

lemma preSave_toggleLike [simp]: "preSave (toggleLike n p) = preSave p"
  by (simp add: preSave_def)

lemma toggleLike_updatedAt:
  "toggleLike n (p\<lparr>updatedAt := t\<rparr>) = (toggleLike n p)\<lparr>updatedAt := t\<rparr>"
  by (simp add: toggleLike_def)

lemma likePost_ok:
  assumes "findById (params_id req) (postDocs st) = Some p"
      and "map_option auth_username (req_user req) = Some n" and "n \<noteq> []"
      and "validate p" and "preSave p"
  shows "likePost e st req =
          (Success 200 (LikeData (likes (toggleLike n p)) (n \<notin> set (users (likes p)))),
           st\<lparr>postDocs := map (\<lambda>q. if post_id q = params_id req
                                  then (toggleLike n p)\<lparr>updatedAt := now e\<rparr> else q)
                             (postDocs st)\<rparr>)"
  using assms findById_SomeD[OF assms(1)]
  by (auto simp: likePost_def Let_def save_def split: option.splits)

text \<open>
  C3, as amended. Take a post whose counter is the number of distinct users in
  its list, which keeps the counter in the range where the numbers of the program
  are integers, and which passes validation and the pre-save hook. Two calls of
  \<^verbatim>\<open>likePost\<close> in a row by the same user both succeed, the second returns the
  negation of the first call's \<open>liked\<close>, and the likes have the counter and the
  set of users they had before (the order of the list may differ: a user who
  unlikes and likes again moves to the end).
\<close>

theorem C3_toggle_twice:
  assumes "findById (params_id req) (postDocs st) = Some p"
      and "map_option auth_username (req_user req) = Some n" and "n \<noteq> []"
      and "count (likes p) = int (card (set (users (likes p))))"
      and "validate p" and "preSave p"
  shows "\<exists>l1 b st1 l2 st2 p2.
           likePost e1 st req = (Success 200 (LikeData l1 b), st1)
         \<and> likePost e2 st1 req = (Success 200 (LikeData l2 (\<not> b)), st2)
         \<and> count l2 = count (likes p) \<and> set (users l2) = set (users (likes p))
         \<and> findById (params_id req) (postDocs st2) = Some p2 \<and> likes p2 = l2"
proof -
  let ?p1 = "(toggleLike n p)\<lparr>updatedAt := now e1\<rparr>"
  let ?st1 = "st\<lparr>postDocs := map (\<lambda>q. if post_id q = params_id req then ?p1 else q) (postDocs st)\<rparr>"
  let ?p2 = "(toggleLike n ?p1)\<lparr>updatedAt := now e2\<rparr>"
  let ?st2 = "?st1\<lparr>postDocs := map (\<lambda>q. if post_id q = params_id req then ?p2 else q) (postDocs ?st1)\<rparr>"
  have id: "post_id p = params_id req" using findById_SomeD[OF assms(1)] by simp
  have first: "likePost e1 st req =
      (Success 200 (LikeData (likes (toggleLike n p)) (n \<notin> set (users (likes p)))), ?st1)"
    by (rule likePost_ok[OF assms(1,2,3,5,6)])
  have f1: "findById (params_id req) (postDocs ?st1) = Some ?p1"
    using findById_replace[OF assms(1), of ?p1] id by simp
  have u1: "map_option auth_username (req_user req) = Some n" by (rule assms(2))
  have v1: "validate ?p1" using assms(5) by (simp add: validate_def)
  have s1: "preSave ?p1" using assms(6) by (simp add: preSave_def)
  have second: "likePost e2 ?st1 req =
      (Success 200 (LikeData (likes (toggleLike n ?p1)) (n \<notin> set (users (likes ?p1)))), ?st2)"
    by (rule likePost_ok[OF f1 u1 assms(3) v1 s1])
  have f2: "findById (params_id req) (postDocs ?st2) = Some ?p2"
    using findById_replace[OF f1, of ?p2] id by simp
  have l: "likes (toggleLike n ?p1) = likes (toggleLike n (toggleLike n p))"
    by (simp add: toggleLike_updatedAt)
  have m: "(n \<notin> set (users (likes ?p1))) = (\<not> (n \<notin> set (users (likes p))))"
    using toggleLike_member[of n p] by simp
  from toggleLike_twice[OF assms(4)] l
  have r: "count (likes (toggleLike n ?p1)) = count (likes p)"
          "set (users (likes (toggleLike n ?p1))) = set (users (likes p))" by simp_all
  have l2: "likes ?p2 = likes (toggleLike n ?p1)" by simp
  show ?thesis
    using first second[unfolded m] r f2 l2 by blast
qed

theorem C3_toggle_twice_witness:
  "findById (params_id (postReq 1 bob)) (postDocs likedState) = Some likedPost
   \<and> map_option auth_username (req_user (postReq 1 bob)) = Some ''bob''
   \<and> count (likes likedPost) = int (card (set (users (likes likedPost))))
   \<and> validate likedPost \<and> preSave likedPost
   \<and> (\<exists>l1 b st1 l2 st2 p2.
           likePost \<lparr>now = 20, newId = 7\<rparr> likedState (postReq 1 bob)
             = (Success 200 (LikeData l1 b), st1)
         \<and> likePost \<lparr>now = 21, newId = 8\<rparr> st1 (postReq 1 bob)
             = (Success 200 (LikeData l2 (\<not> b)), st2)
         \<and> count l2 = 2 \<and> set (users l2) = {''bob'', ''carlos''}
         \<and> findById (params_id (postReq 1 bob)) (postDocs st2) = Some p2 \<and> likes p2 = l2)"
proof -
  have h1: "findById (params_id (postReq 1 bob)) (postDocs likedState) = Some likedPost"
    by (simp add: example_defs model_defs)
  have h2: "map_option auth_username (req_user (postReq 1 bob)) = Some ''bob''"
    by (simp add: example_defs)
  have h3: "''bob'' \<noteq> []" by simp
  have h4: "count (likes likedPost) = int (card (set (users (likes likedPost))))"
    by (simp add: likedPost_def)
  have h5: "validate likedPost" by (simp add: example_defs model_defs)
  have h6: "preSave likedPost" by (simp add: example_defs model_defs)
  have c: "count (likes likedPost) = 2" "set (users (likes likedPost)) = {''bob'', ''carlos''}"
    by (simp_all add: likedPost_def)
  from C3_toggle_twice[OF h1 h2 h3 h4 h5 h6, of "\<lparr>now = 20, newId = 7\<rparr>" "\<lparr>now = 21, newId = 8\<rparr>"]
  have "\<exists>l1 b st1 l2 st2 p2.
           likePost \<lparr>now = 20, newId = 7\<rparr> likedState (postReq 1 bob)
             = (Success 200 (LikeData l1 b), st1)
         \<and> likePost \<lparr>now = 21, newId = 8\<rparr> st1 (postReq 1 bob)
             = (Success 200 (LikeData l2 (\<not> b)), st2)
         \<and> count l2 = 2 \<and> set (users l2) = {''bob'', ''carlos''}
         \<and> findById (params_id (postReq 1 bob)) (postDocs st2) = Some p2 \<and> likes p2 = l2"
    unfolding c .
  with h1 h2 h4 h5 h6 show ?thesis by blast
qed

text \<open>
  C3 as stated fails on a post whose list holds a user while its counter is 0: the
  unlike keeps the counter at 0 (\<^verbatim>\<open>Math.max(0, count - 1)\<close>), the like that
  follows makes it 1.
\<close>

theorem C3_counterexample:
  "map likes (postDocs desyncState) = [\<lparr>count = 0, users = [''bob'']\<rparr>]
   \<and> fst (likePost \<lparr>now = 20, newId = 7\<rparr> desyncState (postReq 1 bob))
       = Success 200 (LikeData \<lparr>count = 0, users = []\<rparr> False)
   \<and> fst (likePost \<lparr>now = 21, newId = 8\<rparr>
            (snd (likePost \<lparr>now = 20, newId = 7\<rparr> desyncState (postReq 1 bob))) (postReq 1 bob))
       = Success 200 (LikeData \<lparr>count = 1, users = [''bob'']\<rparr> True)
   \<and> map likes (postDocs (snd (likePost \<lparr>now = 21, newId = 8\<rparr>
            (snd (likePost \<lparr>now = 20, newId = 7\<rparr> desyncState (postReq 1 bob))) (postReq 1 bob))))
       = [\<lparr>count = 1, users = [''bob'']\<rparr>]"
  by (simp add: example_defs model_defs)

section \<open>Likes and comments leave the rest of a post alone\<close>

lemma addComment_cases:
  assumes "findById (params_id req) (postDocs st) = Some p"
      and "addComment e st req = (resp, st')"
  shows "(\<not> is_success resp \<and> st' = st)
       \<or> (\<exists>c. resp = Success 201 (CommentData c)
            \<and> validate (p\<lparr>comments := comments p @ [c]\<rparr>) \<and> preSave p
            \<and> st' = st\<lparr>postDocs :=
                         map (\<lambda>q. if post_id q = params_id req
                                  then p\<lparr>comments := comments p @ [c], updatedAt := now e\<rparr> else q)
                             (postDocs st)\<rparr>)"
  using assms findById_SomeD[OF assms(1)]
  by (auto simp: addComment_def Let_def preSave_def split: option.splits if_splits prod.splits
           dest!: save_SomeD)

text \<open>
  C10. A successful \<^verbatim>\<open>likePost\<close> or \<^verbatim>\<open>addComment\<close> on a post leaves its
  \<open>content\<close>, \<open>images\<close>, \<open>isEdited\<close> and \<open>editedAt\<close> as they were.
\<close>

theorem C10_like_comment_frame:
  assumes "findById (params_id req) (postDocs st) = Some p"
      and "likePost e st req = (resp, st') \<or> addComment e st req = (resp, st')"
      and "is_success resp"
  shows "\<exists>p'. findById (params_id req) (postDocs st') = Some p'
           \<and> content p' = content p \<and> images p' = images p
           \<and> isEdited p' = isEdited p \<and> editedAt p' = editedAt p"
  using assms(2)
proof
  assume "likePost e st req = (resp, st')"
  from likePost_found[OF assms(1) this assms(3)] show ?thesis by auto
next
  assume a: "addComment e st req = (resp, st')"
  from addComment_cases[OF assms(1) a] assms(3) obtain c where
    st': "st' = st\<lparr>postDocs :=
                         map (\<lambda>q. if post_id q = params_id req
                                  then p\<lparr>comments := comments p @ [c], updatedAt := now e\<rparr> else q)
                             (postDocs st)\<rparr>"
    by auto
  have "findById (params_id req) (postDocs st')
          = Some (p\<lparr>comments := comments p @ [c], updatedAt := now e\<rparr>)"
    unfolding st'
    using findById_replace[OF assms(1), of "p\<lparr>comments := comments p @ [c], updatedAt := now e\<rparr>"]
      findById_SomeD[OF assms(1)] by simp
  then show ?thesis by simp
qed

theorem C10_like_comment_frame_witness:
  "findById 3 (postDocs editedState) = Some editedPost
   \<and> is_success (fst (likePost \<lparr>now = 30, newId = 9\<rparr> editedState (postReq 3 bob)))
   \<and> is_success (fst (addComment \<lparr>now = 30, newId = 9\<rparr> editedState (commentReq 3 bob ''nice'')))
   \<and> (\<exists>p'. findById 3 (postDocs (snd (likePost \<lparr>now = 30, newId = 9\<rparr> editedState (postReq 3 bob))))
              = Some p'
           \<and> content p' = Some ''draft'' \<and> images p' = [img ''a'']
           \<and> isEdited p' = True \<and> editedAt p' = Some 15)
   \<and> (\<exists>p'. findById 3 (postDocs (snd (addComment \<lparr>now = 30, newId = 9\<rparr> editedState
                                         (commentReq 3 bob ''nice''))))
              = Some p'
           \<and> content p' = Some ''draft'' \<and> images p' = [img ''a'']
           \<and> isEdited p' = True \<and> editedAt p' = Some 15)"
proof -
  let ?e = "\<lparr>now = 30, newId = 9\<rparr>"
  let ?l = "likePost ?e editedState (postReq 3 bob)"
  let ?a = "addComment ?e editedState (commentReq 3 bob ''nice'')"
  have i1: "params_id (postReq 3 bob) = 3" and i2: "params_id (commentReq 3 bob ''nice'') = 3"
    by (simp_all add: example_defs)
  have h1: "findById 3 (postDocs editedState) = Some editedPost"
    by (simp add: example_defs model_defs )
  have h2: "is_success (fst ?l)"
    by (simp add: example_defs model_defs )
  have h3: "is_success (fst ?a)"
    by (simp add: example_defs model_defs )
  have f: "content editedPost = Some ''draft''" "images editedPost = [img ''a'']"
          "isEdited editedPost = True" "editedAt editedPost = Some 15"
    by (simp_all add: example_defs)
  have a: "\<exists>p'. findById 3 (postDocs (snd ?l)) = Some p'
           \<and> content p' = Some ''draft'' \<and> images p' = [img ''a'']
           \<and> isEdited p' = True \<and> editedAt p' = Some 15"
    using C10_like_comment_frame[of "postReq 3 bob" editedState editedPost ?e "fst ?l" "snd ?l"]
      h1 h2 unfolding i1 f by simp
  have b: "\<exists>p'. findById 3 (postDocs (snd ?a)) = Some p'
           \<and> content p' = Some ''draft'' \<and> images p' = [img ''a'']
           \<and> isEdited p' = True \<and> editedAt p' = Some 15"
    using C10_like_comment_frame[of "commentReq 3 bob ''nice''" editedState editedPost ?e "fst ?a" "snd ?a"]
      h1 h3 unfolding i2 f by simp
  from h1 h2 h3 a b show ?thesis by blast
qed

section \<open>The feed\<close>

lemma count_list_insort_key:
  "count_list (insort_key f x xs) y = count_list (x # xs) y"
  by (induction xs) auto

lemma count_list_sort_key: "count_list (sort_key f xs) y = count_list xs y"
  by (induction xs) (simp_all add: count_list_insort_key)

lemma insertionOrder_sorts: "sortsByCreatedAt insertionOrder"
proof -
  have "sorted (map (\<lambda>p. - int (createdAt p)) (insertionOrder ps))" for ps
    unfolding insertionOrder_def by (rule sorted_sort_key)
  then have "sorted_wrt (\<lambda>a b. createdAt b \<le> createdAt a) (insertionOrder ps)" for ps
    by (simp add: sorted_map)
  then show ?thesis
    by (simp add: sortsByCreatedAt_def insertionOrder_def count_list_sort_key)
qed

lemma hasMore_iff:
  fixes page limit total :: int
  assumes "1 \<le> limit"
  shows "(page < - ((- total) div limit)) = (page * limit < total)"
proof -
  have "- ((- total) div limit) = \<lceil>real_of_int total / real_of_int limit\<rceil>"
    by (simp add: ceiling_divide_eq_div)
  moreover have "(page < \<lceil>real_of_int total / real_of_int limit\<rceil>)
       = (real_of_int page < real_of_int total / real_of_int limit)"
    by (simp add: less_ceiling_iff)
  moreover have "(real_of_int page < real_of_int total / real_of_int limit) = (page * limit < total)"
    using assms by (simp add: pos_less_divide_eq flip: of_int_mult)
  ultimately show ?thesis by simp
qed

text \<open>
  C4, as amended. Take a page that is at least 1, a limit that is at least 1, and
  a database that sorts by \<open>createdAt\<close> as it promises. \<^verbatim>\<open>getPosts\<close> answers
  200 with the posts of the collection in descending order of \<open>createdAt\<close>,
  skipping \<open>(page - 1) * limit\<close> of them and taking at most \<open>limit\<close>; the
  query names no second key, so nothing is said about the order of posts with the
  same \<open>createdAt\<close>. \<open>totalItems\<close> is the number of posts, \<open>totalPages\<close> is
  the ceiling of \<open>totalItems / limit\<close>, \<open>hasMore\<close> is \<open>page < totalPages\<close>,
  which holds exactly when \<open>page * limit < totalItems\<close>; with no post there is
  no page and nothing more.
\<close>

theorem C4_feed_page:
  assumes "query_page req = Some page" and "query_limit req = Some limit"
      and "1 \<le> page" and "1 \<le> limit"
      and "sortsByCreatedAt (sortStage st)"
  shows "\<exists>posts pg. getPosts st req = (Success 200 (PostList posts pg), st)
       \<and> posts = take (nat limit) (drop (nat ((page - 1) * limit)) (feedOrder st))
       \<and> (\<forall>p. count_list (feedOrder st) p = count_list (postDocs st) p)
       \<and> sorted_wrt (\<lambda>a b. createdAt b \<le> createdAt a) (feedOrder st)
       \<and> sorted_wrt (\<lambda>a b. createdAt b \<le> createdAt a) posts
       \<and> length posts \<le> nat limit
       \<and> currentPage pg = page \<and> totalItems pg = int (length (postDocs st))
       \<and> totalPages pg = \<lceil>real_of_int (totalItems pg) / real_of_int limit\<rceil>
       \<and> hasMore pg = (page < totalPages pg)
       \<and> hasMore pg = (page * limit < totalItems pg)
       \<and> (totalItems pg = 0 \<longrightarrow> totalPages pg = 0 \<and> \<not> hasMore pg)"
proof -
  let ?total = "int (length (postDocs st))"
  let ?pages = "- ((- ?total) div limit)"
  let ?posts = "take (nat limit) (drop (nat ((page - 1) * limit)) (feedOrder st))"
  let ?pg = "\<lparr>currentPage = page, totalPages = ?pages, totalItems = ?total,
              hasMore = (page < ?pages)\<rparr>"
  have "0 \<le> (page - 1) * limit" using assms(3,4) by (intro mult_nonneg_nonneg) simp_all
  then have skip: "\<not> (page - 1) * limit < 0" by simp
  have run: "getPosts st req = (Success 200 (PostList ?posts ?pg), st)"
    using assms(1-4) skip by (simp add: getPosts_def orDefault_def Let_def)
  have perm: "\<forall>p. count_list (feedOrder st) p = count_list (postDocs st) p"
    and srt: "sorted_wrt (\<lambda>a b. createdAt b \<le> createdAt a) (feedOrder st)"
    using assms(5) by (simp_all add: sortsByCreatedAt_def feedOrder_def)
  have s: "sorted_wrt (\<lambda>a b. createdAt b \<le> createdAt a) ?posts"
    using srt by (intro sorted_wrt_take sorted_wrt_drop)
  have c: "?pages = \<lceil>real_of_int ?total / real_of_int limit\<rceil>"
    by (rule ceiling_divide_eq_div[symmetric])
  have h: "(page < ?pages) = (page * limit < ?total)"
    by (rule hasMore_iff[OF assms(4)])
  have z: "?total = 0 \<longrightarrow> ?pages = 0 \<and> \<not> page < ?pages"
    using assms(3) by auto
  show ?thesis
    apply (rule exI[of _ ?posts], rule exI[of _ ?pg])
    using run s c h z perm srt
    by simp
qed

theorem C4_feed_page_witness:
  "query_page (feedReq 1 2) = Some 1 \<and> query_limit (feedReq 1 2) = Some 2
   \<and> sortsByCreatedAt (sortStage feedState)
   \<and> getPosts feedState (feedReq 1 2)
     = (Success 200
          (PostList [alicePost 3 30 (Some ''three'') [], alicePost 2 20 (Some ''two'') []]
             \<lparr>currentPage = 1, totalPages = 2, totalItems = 3, hasMore = True\<rparr>),
        feedState)"
proof -
  have q: "query_page (feedReq 1 2) = Some 1" "query_limit (feedReq 1 2) = Some 2"
    by (simp_all add: example_defs)
  have d: "sortsByCreatedAt (sortStage feedState)"
    using insertionOrder_sorts by (simp add: feedState_def)
  have o: "(1::int) \<le> 1" "(1::int) \<le> 2" by simp_all
  from C4_feed_page[OF q o d] obtain posts pg where
    r: "getPosts feedState (feedReq 1 2) = (Success 200 (PostList posts pg), feedState)"
    and p: "posts = take (nat 2) (drop (nat ((1 - 1) * 2)) (feedOrder feedState))"
    and c: "currentPage pg = 1" "totalItems pg = int (length (postDocs feedState))"
           "totalPages pg = \<lceil>real_of_int (totalItems pg) / real_of_int 2\<rceil>"
           "hasMore pg = (1 * 2 < totalItems pg)"
    by auto
  have len: "int (length (postDocs feedState)) = 3" by (simp add: example_defs)
  have "posts = [alicePost 3 30 (Some ''three'') [], alicePost 2 20 (Some ''two'') []]"
    unfolding p by (simp add: example_defs feedOrder_def insertionOrder_def)
  moreover have "pg = \<lparr>currentPage = 1, totalPages = 2, totalItems = 3, hasMore = True\<rparr>"
    using c unfolding len by (intro pagination.equality) simp_all
  ultimately show ?thesis using r q d by simp
qed

text \<open>
  C4 as stated fails in a state whose database sorts by \<open>createdAt\<close> as it
  promises and returns posts with the same \<open>createdAt\<close> in the order of their
  insertion: of two such posts, the one with the smaller identifier comes first.
  The query sorts on \<open>createdAt\<close> alone, so nothing in the program excludes this
  database.
\<close>

theorem C4_counterexample:
  "sortsByCreatedAt (sortStage tiedState)
   \<and> getPosts tiedState (feedReq 1 10)
     = (Success 200
          (PostList [alicePost 1 10 (Some ''first'') [], alicePost 2 10 (Some ''second'') []]
             \<lparr>currentPage = 1, totalPages = 1, totalItems = 2, hasMore = False\<rparr>),
        tiedState)
   \<and> createdAt (alicePost 1 10 (Some ''first'') []) = createdAt (alicePost 2 10 (Some ''second'') [])
   \<and> post_id (alicePost 1 10 (Some ''first'') []) < post_id (alicePost 2 10 (Some ''second'') [])"
proof -
  have "sortsByCreatedAt (sortStage tiedState)"
    using insertionOrder_sorts by (simp add: tiedState_def)
  then show ?thesis
    by (simp add: example_defs getPosts_def orDefault_def feedOrder_def insertionOrder_def Let_def)
qed

section \<open>Ownership\<close>

text \<open>
  C9. On a post that exists, a requester whose id is not the author's (or no
  requester at all) gets 403 from \<^verbatim>\<open>updatePost\<close>, \<^verbatim>\<open>deletePost\<close> and
  \<^verbatim>\<open>deletePostImage\<close>, and the state stays as it was: the collection, the
  images of the post and the asset store, which receives no deletion request.
\<close>

theorem C9_forbidden:
  assumes "findById (params_id req) (postDocs st) = Some p"
      and "Some (author p) \<noteq> map_option auth_id (req_user req)"
  shows "updatePost e st req = (Failure 403, st)
       \<and> deletePost st req = (Failure 403, st)
       \<and> deletePostImage e st req = (Failure 403, st)"
  unfolding updatePost_def deletePost_def deletePostImage_def
  by (simp only: assms option.case if_True not_False_eq_True simp_thms)

theorem C9_forbidden_witness:
  "findById 5 (postDocs galleryState) = Some helloPost
   \<and> Some (author helloPost) \<noteq> Some (auth_id bob)
   \<and> updatePost \<lparr>now = 60, newId = 9\<rparr> galleryState (updateReq 5 bob (Some ''mine'') [''a''] None)
       = (Failure 403, galleryState)
   \<and> deletePost galleryState (postReq 5 bob) = (Failure 403, galleryState)
   \<and> deletePostImage \<lparr>now = 60, newId = 9\<rparr> galleryState (imageReq 5 bob ''a'')
       = (Failure 403, galleryState)"
proof -
  let ?e = "\<lparr>now = 60, newId = 9\<rparr>"
  have f: "findById 5 (postDocs galleryState) = Some helloPost"
    by (simp add: example_defs property_defs findById_def)
  have n: "Some (author helloPost) \<noteq> Some (auth_id bob)" by (simp add: example_defs property_defs)
  have a: "updatePost ?e galleryState (updateReq 5 bob (Some ''mine'') [''a''] None) = (Failure 403, galleryState)"
    using C9_forbidden[of "updateReq 5 bob (Some ''mine'') [''a''] None" galleryState helloPost ?e] f n
    by (simp add: example_defs property_defs)
  have b: "deletePost galleryState (postReq 5 bob) = (Failure 403, galleryState)"
    using C9_forbidden[of "postReq 5 bob" galleryState helloPost ?e] f n
    by (simp add: example_defs property_defs)
  have c: "deletePostImage ?e galleryState (imageReq 5 bob ''a'') = (Failure 403, galleryState)"
    using C9_forbidden[of "imageReq 5 bob ''a''" galleryState helloPost ?e] f n
    by (simp add: example_defs property_defs)
  from f n a b c show ?thesis by blast
qed

section \<open>Deleting a post\<close>

lemma filter_removeAll:
  "filter P (removeAll x ys) = filter (\<lambda>a. a \<noteq> x \<and> P a) ys"
  by (induction ys) auto

lemma deleteImage_result: "deleteImage pid c = (True, afterRequests [pid] c)"
proof -
  have "removeAll pid ys = filter (\<lambda>a. a \<noteq> pid) ys" for ys :: "string list"
    by (induction ys) auto
  then show ?thesis
    by (simp add: deleteImage_def destroyAsset_def afterRequests_def)
qed

lemma afterRequests_append:
  "afterRequests (pid # ids) c = afterRequests ids (afterRequests [pid] c)"
proof -
  have "filter (\<lambda>a. a \<notin> set ids \<or> a \<in> set (unavailable c))
          (filter (\<lambda>a. a \<notin> set [pid] \<or> a \<in> set (unavailable c)) xs)
      = filter (\<lambda>a. a \<notin> set (pid # ids) \<or> a \<in> set (unavailable c)) xs" for xs
    by (induction xs) auto
  then show ?thesis unfolding afterRequests_def by simp
qed

lemma afterRequests_available:
  assumes "set ids \<inter> set (unavailable c) = {}"
  shows "afterRequests ids c = afterDeletions ids c"
proof -
  have "filter (\<lambda>a. a \<notin> set ids \<or> a \<in> set (unavailable c)) xs
      = filter (\<lambda>a. a \<notin> set ids) xs" for xs
    using assms by (induction xs) auto
  then show ?thesis unfolding afterRequests_def afterDeletions_def by simp
qed




section \<open>Updating a post\<close>

lemma deleteListed_result:
  "deleteListed pids p c =
     (True, p\<lparr>images := filter (\<lambda>img. publicId img \<notin> set pids) (images p)\<rparr>,
      afterRequests pids c)"
proof (induction pids arbitrary: p c)
  case Nil
  show ?case by (simp add: afterRequests_def)
next
  case (Cons pid pids)
  have g: "(\<lambda>img. publicId img \<notin> set pids \<and> publicId img \<noteq> pid)
         = (\<lambda>img. publicId img \<noteq> pid \<and> publicId img \<notin> set pids)" by auto
  show ?case
    by (simp add: deleteImage_result Cons.IH afterRequests_append[symmetric] g)
qed

lemma deleteListed_ok:
  "set pids \<inter> set (unavailable c) = {} \<Longrightarrow>
   deleteListed pids p c =
     (True, p\<lparr>images := filter (\<lambda>img. publicId img \<notin> set pids) (images p)\<rparr>,
      afterDeletions pids c)"
  by (simp add: deleteListed_result afterRequests_available)

lemma updatePost_steps:
  assumes "findById (params_id req) (postDocs st) = Some p"
      and "Some (author p) = map_option auth_id (req_user req)"
      and "set (body_imagesToDelete req) \<inter> set (unavailable (assetStore st)) = {}"
  shows "updatePost e st req =
     (let c = afterDeletions (body_imagesToDelete req) (assetStore st); p3 = updatedDoc req p;
          m = updateModifies e req p
                (p\<lparr>images := filter (\<lambda>img. publicId img \<notin> set (body_imagesToDelete req))
                                   (images p)\<rparr>)
      in if falsy (content p3) \<and> length (images p3) = 0
         then (Failure 400, st\<lparr>assetStore := c\<rparr>)
         else (case save (now e) m (p3\<lparr>isEdited := True, editedAt := Some (now e)\<rparr>)
                      (postDocs st) of
                 None \<Rightarrow> (Failure 500, st\<lparr>assetStore := c\<rparr>)
               | Some (p', ps) \<Rightarrow>
                   (Success 200 (PostData p'), st\<lparr>postDocs := ps, assetStore := c\<rparr>)))"
proof -
  let ?p1 = "p\<lparr>images := filter (\<lambda>img. publicId img \<notin> set (body_imagesToDelete req)) (images p)\<rparr>"
  have p3: "(case body_content req of
               None \<Rightarrow> (case req_files req of None \<Rightarrow> ?p1
                         | Some fs \<Rightarrow> if length fs > 0 then ?p1\<lparr>images := images ?p1 @ map toImage fs\<rparr> else ?p1)
             | Some t \<Rightarrow> (case req_files req of None \<Rightarrow> ?p1
                         | Some fs \<Rightarrow> if length fs > 0 then ?p1\<lparr>images := images ?p1 @ map toImage fs\<rparr> else ?p1)
                        \<lparr>content := Some (trim t)\<rparr>) = updatedDoc req p"
    by (auto simp: updatedDoc_def split: option.splits)
  have "updatePost e st req =
     (case deleteListed (body_imagesToDelete req) p (assetStore st) of
                  (False, _, c) \<Rightarrow> (Failure 500, st\<lparr>assetStore := c\<rparr>)
                | (True, p1, c) \<Rightarrow>
                    let p2 = (case req_files req of
                                None \<Rightarrow> p1
                              | Some fs \<Rightarrow>
                                  if length fs > 0
                                  then p1\<lparr>images := images p1 @ map toImage fs\<rparr> else p1);
                        p3 = (case body_content req of
                                None \<Rightarrow> p2
                              | Some t \<Rightarrow> p2\<lparr>content := Some (trim t)\<rparr>)
                    in if falsy (content p3) \<and> length (images p3) = 0
                       then (Failure 400, st\<lparr>assetStore := c\<rparr>)
                       else (case save (now e) (updateModifies e req p p1)
                                   (p3\<lparr>isEdited := True, editedAt := Some (now e)\<rparr>)
                                   (postDocs st) of
                               None \<Rightarrow> (Failure 500, st\<lparr>assetStore := c\<rparr>)
                             | Some (p', ps) \<Rightarrow>
                                 (Success 200 (PostData p'),
                                  st\<lparr>postDocs := ps, assetStore := c\<rparr>)))"
    unfolding updatePost_def
    by (simp only: assms(1,2) option.case if_False not_True_eq_False simp_thms)
  then show ?thesis
    unfolding deleteListed_ok[OF assms(3)] Let_def prod.case bool.case p3[symmetric]
    by simp
qed

lemma falsy_updatedDoc:
  assumes "storedForm p" and "emptyAfterTrim (content (updatedDoc req p))"
  shows "falsy (content (updatedDoc req p))"
  using assms
  by (auto simp: storedForm_def emptyAfterTrim_def updatedDoc_def trim_idem split: option.splits)

text \<open>
  C5. When the owner's update, with every deletion request succeeding, leaves the
  document of steps (a) to (c) with a content that is empty after trimming and with
  no image, \<^verbatim>\<open>updatePost\<close> answers 400, the collection still holds the post as
  it was, and the asset store has carried out the deletions that were requested.
  The stored content is in the form the schema's trim setter writes.
\<close>

theorem C5_update_rejected:
  assumes "findById (params_id req) (postDocs st) = Some p"
      and "Some (author p) = map_option auth_id (req_user req)"
      and "set (body_imagesToDelete req) \<inter> set (unavailable (assetStore st)) = {}"
      and "storedForm p"
      and "emptyAfterTrim (content (updatedDoc req p))"
      and "images (updatedDoc req p) = []"
  shows "updatePost e st req =
           (Failure 400,
            st\<lparr>assetStore := afterDeletions (body_imagesToDelete req) (assetStore st)\<rparr>)
       \<and> findById (params_id req) (postDocs (snd (updatePost e st req))) = Some p"
proof -
  have "falsy (content (updatedDoc req p)) \<and> length (images (updatedDoc req p)) = 0"
    using falsy_updatedDoc[OF assms(4,5)] assms(6) by simp
  then have "updatePost e st req =
           (Failure 400,
            st\<lparr>assetStore := afterDeletions (body_imagesToDelete req) (assetStore st)\<rparr>)"
    unfolding updatePost_steps[OF assms(1,2,3)] Let_def by simp
  then show ?thesis using assms(1) by simp
qed

theorem C5_update_rejected_witness:
  "findById 4 (postDocs galleryState) = Some soloPost
   \<and> storedForm soloPost
   \<and> updatePost \<lparr>now = 40, newId = 9\<rparr> galleryState (updateReq 4 alice (Some ''   '') [''solo''] None)
      = (Failure 400,
         galleryState\<lparr>assetStore := \<lparr>assetIds = [''a'', ''b''], unavailable = [],
                                      deletions = [''solo'']\<rparr>\<rparr>)
   \<and> findById 4 (postDocs (snd (updatePost \<lparr>now = 40, newId = 9\<rparr> galleryState
                                   (updateReq 4 alice (Some ''   '') [''solo''] None))))
      = Some soloPost"
proof -
  let ?req = "updateReq 4 alice (Some ''   '') [''solo''] None"
  have h1: "findById (params_id ?req) (postDocs galleryState) = Some soloPost"
    by (simp add: example_defs property_defs findById_def)
  have h2: "Some (author soloPost) = map_option auth_id (req_user ?req)"
    by (simp add: example_defs property_defs)
  have h3: "set (body_imagesToDelete ?req) \<inter> set (unavailable (assetStore galleryState)) = {}"
    by (simp add: example_defs property_defs)
  have h4: "storedForm soloPost" by (simp add: example_defs property_defs)
  have h5: "emptyAfterTrim (content (updatedDoc ?req soloPost))"
    by (simp add: example_defs property_defs trim_def is_space_def)
  have h6: "images (updatedDoc ?req soloPost) = []"
    by (simp add: example_defs property_defs)
  have i: "params_id ?req = 4" by (simp add: example_defs property_defs)
  from C5_update_rejected[OF h1 h2 h3 h4 h5 h6, of "\<lparr>now = 40, newId = 9\<rparr>"] h1 h4
  show ?thesis unfolding i
    by (simp add: example_defs property_defs)
qed

text \<open>
  C6. For the owner, with every deletion request succeeding: the assets listed in
  \<open>imagesToDelete\<close> are deleted in the order of the list and the images with
  those identifiers leave the post, the new images are appended after that (so a
  new image is never removed by the list), the content is replaced by the trimmed
  new content when one is given, and the document is stored with
  \<open>isEdited\<close> set and \<open>editedAt\<close> at the current time, provided it has a content
  or an image and passes the schema's validation. Nothing is said of
  \<open>updatedAt\<close>, which the save sets or leaves as it finds fit.
\<close>

theorem C6_update_steps:
  assumes "findById (params_id req) (postDocs st) = Some p"
      and "Some (author p) = map_option auth_id (req_user req)"
      and "set (body_imagesToDelete req) \<inter> set (unavailable (assetStore st)) = {}"
      and "\<not> (falsy (content (updatedDoc req p)) \<and> images (updatedDoc req p) = [])"
      and "validate (updatedDoc req p)"
  shows "\<exists>t. updatePost e st req =
           (let p' = (updatedDoc req p)\<lparr>isEdited := True, editedAt := Some (now e),
                                        updatedAt := t\<rparr>
            in (Success 200 (PostData p'),
                st\<lparr>postDocs := map (\<lambda>q. if post_id q = params_id req then p' else q) (postDocs st),
                   assetStore := afterDeletions (body_imagesToDelete req) (assetStore st)\<rparr>))"
proof -
  let ?p4 = "(updatedDoc req p)\<lparr>isEdited := True, editedAt := Some (now e)\<rparr>"
  let ?m = "updateModifies e req p
              (p\<lparr>images := filter (\<lambda>img. publicId img \<notin> set (body_imagesToDelete req))
                                 (images p)\<rparr>)"
  have id: "post_id ?p4 = params_id req"
    using findById_SomeD[OF assms(1)] by (simp add: updatedDoc_def)
  have v: "validate ?p4" using assms(5) by (simp add: validate_def)
  have h: "preSave ?p4" using assms(4) by (simp add: preSave_def)
  have n: "\<not> (falsy (content (updatedDoc req p)) \<and> length (images (updatedDoc req p)) = 0)"
    using assms(4) by simp
  from save_ok[OF v h, of "now e" ?m "postDocs st"] obtain t where
    t: "save (now e) ?m ?p4 (postDocs st)
          = Some (?p4\<lparr>updatedAt := t\<rparr>,
                  map (\<lambda>q. if post_id q = post_id ?p4 then ?p4\<lparr>updatedAt := t\<rparr> else q)
                      (postDocs st))"
    by blast
  have "updatePost e st req =
           (let p' = (updatedDoc req p)\<lparr>isEdited := True, editedAt := Some (now e),
                                        updatedAt := t\<rparr>
            in (Success 200 (PostData p'),
                st\<lparr>postDocs := map (\<lambda>q. if post_id q = params_id req then p' else q) (postDocs st),
                   assetStore := afterDeletions (body_imagesToDelete req) (assetStore st)\<rparr>))"
    unfolding updatePost_steps[OF assms(1,2,3)] Let_def t id
    using n by simp
  then show ?thesis by blast
qed

text \<open>
  The scenario of the specification: a post with the content hello and the images
  a and b, updated by removing a and adding c, has the images b and c and is
  marked as edited.
\<close>

theorem C6_update_steps_witness:
  "findById 5 (postDocs galleryState) = Some helloPost
   \<and> content helloPost = Some ''hello'' \<and> images helloPost = [img ''a'', img ''b'']
   \<and> (\<exists>t. updatePost \<lparr>now = 40, newId = 9\<rparr> galleryState
        (updateReq 5 alice None [''a''] (Some [\<lparr>path = ''https://cdn/c'', filename = ''c''\<rparr>]))
      = (Success 200 (PostData (helloPost\<lparr>images := [img ''b'', img ''c''], isEdited := True,
                                         editedAt := Some 40, updatedAt := t\<rparr>)),
         galleryState
           \<lparr>postDocs := [soloPost, helloPost\<lparr>images := [img ''b'', img ''c''], isEdited := True,
                                               editedAt := Some 40, updatedAt := t\<rparr>],
            assetStore := \<lparr>assetIds = [''solo'', ''b''], unavailable = [],
                            deletions = [''a'']\<rparr>\<rparr>))"
proof -
  let ?req = "updateReq 5 alice None [''a''] (Some [\<lparr>path = ''https://cdn/c'', filename = ''c''\<rparr>])"
  have h1: "findById (params_id ?req) (postDocs galleryState) = Some helloPost"
    by (simp add: example_defs property_defs findById_def)
  have h2: "Some (author helloPost) = map_option auth_id (req_user ?req)"
    by (simp add: example_defs property_defs)
  have h3: "set (body_imagesToDelete ?req) \<inter> set (unavailable (assetStore galleryState)) = {}"
    by (simp add: example_defs property_defs)
  have h4: "\<not> (falsy (content (updatedDoc ?req helloPost)) \<and> images (updatedDoc ?req helloPost) = [])"
    by (simp add: example_defs property_defs)
  have h5: "validate (updatedDoc ?req helloPost)"
    by (simp add: example_defs property_defs validate_def validImage_def toImage_def)
  have i: "params_id ?req = 5" by (simp add: example_defs property_defs)
  have f: "content helloPost = Some ''hello''" "images helloPost = [img ''a'', img ''b'']"
    by (simp_all add: example_defs)
  from C6_update_steps[OF h1 h2 h3 h4 h5, of "\<lparr>now = 40, newId = 9\<rparr>"] obtain t where
    "updatePost \<lparr>now = 40, newId = 9\<rparr> galleryState ?req =
           (let p' = (updatedDoc ?req helloPost)\<lparr>isEdited := True, editedAt := Some (now \<lparr>now = 40, newId = 9\<rparr>),
                                        updatedAt := t\<rparr>
            in (Success 200 (PostData p'),
                galleryState\<lparr>postDocs := map (\<lambda>q. if post_id q = params_id ?req then p' else q)
                                             (postDocs galleryState),
                   assetStore := afterDeletions (body_imagesToDelete ?req) (assetStore galleryState)\<rparr>))"
    by blast
  then have "updatePost \<lparr>now = 40, newId = 9\<rparr> galleryState ?req
      = (Success 200 (PostData (helloPost\<lparr>images := [img ''b'', img ''c''], isEdited := True,
                                         editedAt := Some 40, updatedAt := t\<rparr>)),
         galleryState
           \<lparr>postDocs := [soloPost, helloPost\<lparr>images := [img ''b'', img ''c''], isEdited := True,
                                               editedAt := Some 40, updatedAt := t\<rparr>],
            assetStore := \<lparr>assetIds = [''solo'', ''b''], unavailable = [],
                            deletions = [''a'']\<rparr>\<rparr>)"
    by (simp add: example_defs property_defs toImage_def Let_def)
  with h1 i f show ?thesis by auto
qed

text \<open>
  An update that assigns nothing new leaves \<open>updatedAt\<close> alone: the post of
  \<open>editedState\<close> was edited at time 15 and updated at time 10, and an update
  without content, deletions or files at time 15 returns it as it is.
\<close>

lemma updatePost_unmodified:
  "updatePost \<lparr>now = 15, newId = 9\<rparr> editedState (updateReq 3 alice None [] None)
     = (Success 200 (PostData editedPost), editedState)"
  by (simp add: example_defs updatePost_def updateModifies_def save_def validate_def
        validImage_def preSave_def findById_def noFiles_def Let_def)

section \<open>Deleting an image\<close>

text \<open>
  C7. For the owner, \<^verbatim>\<open>deletePostImage\<close> answers 404 when no image of the post
  has the identifier, and 400 when the post has no content and the image is its
  only one; in both cases nothing changes and no deletion is requested. Otherwise,
  when the deletion request succeeds, the asset is deleted, the first image with
  that identifier leaves the list and the post is stored.
\<close>

theorem C7_deletePostImage:
  assumes "findById (params_id req) (postDocs st) = Some p"
      and "Some (author p) = map_option auth_id (req_user req)"
  shows "(params_publicId req \<notin> publicId ` set (images p)
            \<longrightarrow> deletePostImage e st req = (Failure 404, st))
       \<and> (params_publicId req \<in> publicId ` set (images p)
            \<and> falsy (content p) \<and> length (images p) = 1
            \<longrightarrow> deletePostImage e st req = (Failure 400, st))
       \<and> (params_publicId req \<in> publicId ` set (images p)
            \<and> \<not> (falsy (content p) \<and> length (images p) = 1)
            \<and> params_publicId req \<notin> set (unavailable (assetStore st)) \<and> validate p
            \<longrightarrow> (\<exists>i p'. i < length (images p) \<and> publicId (images p ! i) = params_publicId req
                   \<and> (\<forall>j < i. publicId (images p ! j) \<noteq> params_publicId req)
                   \<and> p' = p\<lparr>images := take i (images p) @ drop (Suc i) (images p),
                             updatedAt := now e\<rparr>
                   \<and> deletePostImage e st req =
                       (Success 200 (PostData p'),
                        st\<lparr>postDocs := map (\<lambda>q. if post_id q = params_id req then p' else q)
                                            (postDocs st),
                           assetStore := afterDeletions [params_publicId req] (assetStore st)\<rparr>)))"
proof -
  let ?P = "\<lambda>img. publicId img = params_publicId req"
  have start: "deletePostImage e st req =
      (case findIndex ?P (images p) of
                  None \<Rightarrow> (Failure 404, st)
                | Some imageIndex \<Rightarrow>
                    if falsy (content p) \<and> length (images p) = 1 then (Failure 400, st)
                    else (case deleteImage (params_publicId req) (assetStore st) of
                            (False, c) \<Rightarrow> (Failure 500, st\<lparr>assetStore := c\<rparr>)
                          | (True, c) \<Rightarrow>
                              (case save (now e) True
                                      (p\<lparr>images := splice1 imageIndex (images p)\<rparr>)
                                      (postDocs st) of
                                 None \<Rightarrow> (Failure 500, st\<lparr>assetStore := c\<rparr>)
                               | Some (p', ps) \<Rightarrow>
                                   (Success 200 (PostData p'),
                                    st\<lparr>postDocs := ps, assetStore := c\<rparr>))))"
    unfolding deletePostImage_def
    by (simp only: assms option.case if_False not_True_eq_False simp_thms)
  have id: "post_id p = params_id req" using findById_SomeD[OF assms(1)] by simp
  have none: "(findIndex ?P (images p) = None) = (params_publicId req \<notin> publicId ` set (images p))"
    by (force simp: findIndex_None)
  have c1: "params_publicId req \<notin> publicId ` set (images p)
            \<longrightarrow> deletePostImage e st req = (Failure 404, st)"
    using none by (auto simp: start split: option.splits)
  have c2: "params_publicId req \<in> publicId ` set (images p)
            \<and> falsy (content p) \<and> length (images p) = 1
            \<longrightarrow> deletePostImage e st req = (Failure 400, st)"
    using none by (auto simp: start split: option.splits)
  have c3: "\<exists>i p'. i < length (images p) \<and> publicId (images p ! i) = params_publicId req
                   \<and> (\<forall>j < i. publicId (images p ! j) \<noteq> params_publicId req)
                   \<and> p' = p\<lparr>images := take i (images p) @ drop (Suc i) (images p),
                             updatedAt := now e\<rparr>
                   \<and> deletePostImage e st req =
                       (Success 200 (PostData p'),
                        st\<lparr>postDocs := map (\<lambda>q. if post_id q = params_id req then p' else q)
                                            (postDocs st),
                           assetStore := afterDeletions [params_publicId req] (assetStore st)\<rparr>)"
    if a: "params_publicId req \<in> publicId ` set (images p)"
      and b: "\<not> (falsy (content p) \<and> length (images p) = 1)"
      and u: "params_publicId req \<notin> set (unavailable (assetStore st))" and v: "validate p"
  proof -
    from a none obtain i where i: "findIndex ?P (images p) = Some i" by auto
    note fi = findIndex_Some[OF i]
    let ?q = "p\<lparr>images := splice1 i (images p)\<rparr>"
    have len: "length (splice1 i (images p)) = length (images p) - 1"
      using fi by (simp add: splice1_def)
    have sub: "set (splice1 i (images p)) \<subseteq> set (images p)"
      unfolding splice1_def using set_take_subset[of i "images p"] set_drop_subset[of "Suc i" "images p"]
      by auto
    have vq: "validate ?q" using v sub by (auto simp: validate_def list_all_iff)
    have "images p \<noteq> []" using fi by auto
    then have hq: "preSave ?q" using b len
      by (cases "images p") (auto simp: preSave_def)
    have d: "deleteImage (params_publicId req) (assetStore st)
          = (True, afterDeletions [params_publicId req] (assetStore st))"
      using u by (simp add: deleteImage_result afterRequests_available)
    have "deletePostImage e st req =
           (Success 200 (PostData (?q\<lparr>updatedAt := now e\<rparr>)),
            st\<lparr>postDocs := map (\<lambda>q. if post_id q = params_id req then ?q\<lparr>updatedAt := now e\<rparr> else q)
                                            (postDocs st),
               assetStore := afterDeletions [params_publicId req] (assetStore st)\<rparr>)"
      using b by (simp add: start i d save_modified[OF vq hq] id)
    with fi show ?thesis by (auto simp: splice1_def)
  qed
  from c1 c2 c3 show ?thesis by blast
qed

theorem C7_deletePostImage_witness:
  "findById 5 (postDocs galleryState) = Some helloPost
   \<and> findById 4 (postDocs galleryState) = Some soloPost
   \<and> deletePostImage \<lparr>now = 50, newId = 9\<rparr> galleryState (imageReq 5 alice ''zzz'')
       = (Failure 404, galleryState)
   \<and> deletePostImage \<lparr>now = 50, newId = 9\<rparr> galleryState (imageReq 4 alice ''solo'')
       = (Failure 400, galleryState)
   \<and> deletePostImage \<lparr>now = 50, newId = 9\<rparr> galleryState (imageReq 5 alice ''a'')
       = (Success 200 (PostData (helloPost\<lparr>images := [img ''b''], updatedAt := 50\<rparr>)),
          galleryState
            \<lparr>postDocs := [soloPost, helloPost\<lparr>images := [img ''b''], updatedAt := 50\<rparr>],
             assetStore := \<lparr>assetIds = [''solo'', ''b''], unavailable = [], deletions = [''a'']\<rparr>\<rparr>)"
proof -
  let ?e = "\<lparr>now = 50, newId = 9\<rparr>"
  have f5: "findById 5 (postDocs galleryState) = Some helloPost"
    and f4: "findById 4 (postDocs galleryState) = Some soloPost"
    by (simp_all add: example_defs property_defs findById_def)
  have a: "deletePostImage ?e galleryState (imageReq 5 alice ''zzz'') = (Failure 404, galleryState)"
    using C7_deletePostImage[of "imageReq 5 alice ''zzz''" galleryState helloPost ?e] f5
    by (simp add: example_defs property_defs)
  have b: "deletePostImage ?e galleryState (imageReq 4 alice ''solo'') = (Failure 400, galleryState)"
    using C7_deletePostImage[of "imageReq 4 alice ''solo''" galleryState soloPost ?e] f4
    by (simp add: example_defs property_defs)
  have "\<exists>i p'. i < length (images helloPost) \<and> publicId (images helloPost ! i) = ''a''
          \<and> (\<forall>j < i. publicId (images helloPost ! j) \<noteq> ''a'')
          \<and> p' = helloPost\<lparr>images := take i (images helloPost) @ drop (Suc i) (images helloPost),
                             updatedAt := 50\<rparr>
          \<and> deletePostImage ?e galleryState (imageReq 5 alice ''a'') =
               (Success 200 (PostData p'),
                galleryState\<lparr>postDocs := map (\<lambda>q. if post_id q = 5 then p' else q)
                                            (postDocs galleryState),
                   assetStore := afterDeletions [''a''] (assetStore galleryState)\<rparr>)"
    using C7_deletePostImage[of "imageReq 5 alice ''a''" galleryState helloPost ?e] f5
    by (simp add: example_defs property_defs validate_def validImage_def)
  then obtain i p' where
    i: "i < length (images helloPost)" "publicId (images helloPost ! i) = ''a''"
       "p' = helloPost\<lparr>images := take i (images helloPost) @ drop (Suc i) (images helloPost),
                             updatedAt := 50\<rparr>"
       "deletePostImage ?e galleryState (imageReq 5 alice ''a'') =
               (Success 200 (PostData p'),
                galleryState\<lparr>postDocs := map (\<lambda>q. if post_id q = 5 then p' else q)
                                            (postDocs galleryState),
                   assetStore := afterDeletions [''a''] (assetStore galleryState)\<rparr>)"
    by blast
  from i(1,2) have "i = 0" by (cases i) (auto simp: example_defs property_defs less_Suc_eq)
  with i(3) have "p' = helloPost\<lparr>images := [img ''b''], updatedAt := 50\<rparr>"
    by (simp add: example_defs property_defs)
  with i(4) have c: "deletePostImage ?e galleryState (imageReq 5 alice ''a'')
       = (Success 200 (PostData (helloPost\<lparr>images := [img ''b''], updatedAt := 50\<rparr>)),
          galleryState
            \<lparr>postDocs := [soloPost, helloPost\<lparr>images := [img ''b''], updatedAt := 50\<rparr>],
             assetStore := \<lparr>assetIds = [''solo'', ''b''], unavailable = [], deletions = [''a'']\<rparr>\<rparr>)"
    by (simp add: example_defs property_defs)
  from f5 f4 a b c show ?thesis by blast
qed

section \<open>Content or images\<close>

lemma saved_invariant:
  assumes "storedForm p" and "preSave q"
      and "content q = content p \<or> (\<exists>t. content q = Some (trim t))"
  shows "postInvariant q \<and> storedForm q"
proof -
  have sf: "storedForm q"
    using assms(1,3) by (auto simp: storedForm_def trim_idem split: option.splits)
  have "postInvariant q"
  proof (cases "images q = []")
    case False
    then show ?thesis by (simp add: postInvariant_def)
  next
    case True
    with assms(2) obtain s where s: "content q = Some s" "s \<noteq> []"
      by (cases "content q") (auto simp: preSave_def)
    with sf have "trim s = s" by (simp add: storedForm_def)
    with s show ?thesis by (simp add: postInvariant_def emptyAfterTrim_def)
  qed
  with sf show ?thesis by simp
qed

lemma savedAs_invariant:
  assumes "savedAs i st st'" and "\<forall>p \<in> set (postDocs st). storedForm p"
  shows "(\<exists>p. findById i (postDocs st') = Some p \<and> postInvariant p)
       \<and> (\<forall>q \<in> set (postDocs st'). q \<in> set (postDocs st) \<or> postInvariant q)
       \<and> (\<forall>q \<in> set (postDocs st'). storedForm q)"
proof -
  from assms(1) obtain p q where
    f: "findById i (postDocs st) = Some p" and h: "preSave q" and id: "post_id q = i"
    and c: "content q = content p \<or> (\<exists>t. content q = Some (trim t))"
    and m: "postDocs st' = map (\<lambda>x. if post_id x = i then q else x) (postDocs st)"
    unfolding savedAs_def by blast
  from f have "p \<in> set (postDocs st)" using findById_SomeD by blast
  with assms(2) have "storedForm p" by blast
  from saved_invariant[OF this h c] have q: "postInvariant q" "storedForm q" by simp_all
  have "findById i (postDocs st') = Some q"
    unfolding m using findById_replace[OF f id] .
  moreover have "\<forall>x \<in> set (postDocs st'). x \<in> set (postDocs st) \<or> x = q"
    unfolding m by auto
  ultimately show ?thesis using q assms(2) by blast
qed

lemma likePost_savedAs:
  assumes "likePost e st req = (resp, st')" and "is_success resp"
  shows "savedAs (params_id req) st st'"
proof -
  from assms obtain p where f: "findById (params_id req) (postDocs st) = Some p"
    by (cases "findById (params_id req) (postDocs st)") (auto simp: likePost_def)
  from likePost_cases[OF f assms(1)] assms(2) obtain n where
    n: "preSave (toggleLike n p)"
       "st' = st\<lparr>postDocs := map (\<lambda>q. if post_id q = params_id req
                                  then (toggleLike n p)\<lparr>updatedAt := now e\<rparr> else q)
                             (postDocs st)\<rparr>"
    by auto
  show ?thesis unfolding savedAs_def
    apply (rule exI[of _ p], rule exI[of _ "(toggleLike n p)\<lparr>updatedAt := now e\<rparr>"])
    using f n findById_SomeD[OF f] by (simp add: preSave_def)
qed

lemma addComment_savedAs:
  assumes "addComment e st req = (resp, st')" and "is_success resp"
  shows "savedAs (params_id req) st st'"
proof -
  from assms obtain p where f: "findById (params_id req) (postDocs st) = Some p"
    by (cases "findById (params_id req) (postDocs st)") (auto simp: addComment_def split: if_splits)
  from addComment_cases[OF f assms(1)] assms(2) obtain c where
    n: "preSave p"
       "st' = st\<lparr>postDocs := map (\<lambda>q. if post_id q = params_id req
                                  then p\<lparr>comments := comments p @ [c], updatedAt := now e\<rparr> else q)
                             (postDocs st)\<rparr>"
    by auto
  show ?thesis unfolding savedAs_def
    apply (rule exI[of _ p], rule exI[of _ "p\<lparr>comments := comments p @ [c], updatedAt := now e\<rparr>"])
    using f n findById_SomeD[OF f] by (simp add: preSave_def)
qed

lemma deleteListed_frame:
  "deleteListed pids p c = (b, p1, c') \<Longrightarrow> post_id p1 = post_id p \<and> content p1 = content p"
  by (auto simp: deleteListed_result)

lemma updatePost_savedAs:
  assumes "updatePost e st req = (resp, st')" and "is_success resp"
  shows "savedAs (params_id req) st st'"
proof -
  from assms obtain p where f: "findById (params_id req) (postDocs st) = Some p"
    by (cases "findById (params_id req) (postDocs st)") (auto simp: updatePost_def)
  obtain b p1 c where d: "deleteListed (body_imagesToDelete req) p (assetStore st) = (b, p1, c)"
    by (cases "deleteListed (body_imagesToDelete req) p (assetStore st)") auto
  note fr = deleteListed_frame[OF d]
  define p2 where "p2 = (case req_files req of None \<Rightarrow> p1
                         | Some fs \<Rightarrow> if length fs > 0
                                      then p1\<lparr>images := images p1 @ map toImage fs\<rparr> else p1)"
  define p3 where "p3 = (case body_content req of None \<Rightarrow> p2
                         | Some t \<Rightarrow> p2\<lparr>content := Some (trim t)\<rparr>)"
  have p2: "post_id p2 = post_id p" "content p2 = content p"
    using fr by (auto simp: p2_def split: option.splits)
  have p3: "post_id p3 = post_id p" "content p3 = content p \<or> (\<exists>t. content p3 = Some (trim t))"
    using p2 by (auto simp: p3_def split: option.splits)
  let ?p4 = "p3\<lparr>isEdited := True, editedAt := Some (now e)\<rparr>"
  define m where "m = updateModifies e req p p1"
  from assms f d have
    "\<exists>q ps. save (now e) m ?p4 (postDocs st) = Some (q, ps) \<and> postDocs st' = ps"
    unfolding updatePost_def p2_def p3_def m_def
    by (auto simp: Let_def split: if_splits option.splits bool.splits)
  then obtain q ps where
    s: "save (now e) m ?p4 (postDocs st) = Some (q, ps)" "postDocs st' = ps"
    by blast
  from save_SomeD[OF s(1)] have q: "q = ?p4 \<or> q = ?p4\<lparr>updatedAt := now e\<rparr>" "preSave ?p4"
    "ps = map (\<lambda>x. if post_id x = post_id ?p4 then q else x) (postDocs st)"
    by (simp_all split: if_splits)
  show ?thesis unfolding savedAs_def
    apply (rule exI[of _ p], rule exI[of _ q])
    using f q s(2) p3 findById_SomeD[OF f] by (auto simp: preSave_def)
qed

lemma deletePostImage_savedAs:
  assumes "deletePostImage e st req = (resp, st')" and "is_success resp"
  shows "savedAs (params_id req) st st'"
proof -
  from assms obtain p where f: "findById (params_id req) (postDocs st) = Some p"
    by (cases "findById (params_id req) (postDocs st)") (auto simp: deletePostImage_def)
  from assms f have
    "\<exists>i q ps. save (now e) True (p\<lparr>images := splice1 i (images p)\<rparr>) (postDocs st) = Some (q, ps)
        \<and> postDocs st' = ps"
    unfolding deletePostImage_def
    by (fastforce simp: Let_def split: if_splits option.splits bool.splits prod.splits)
  then obtain i q ps where
    s: "save (now e) True (p\<lparr>images := splice1 i (images p)\<rparr>) (postDocs st) = Some (q, ps)"
       "postDocs st' = ps"
    by blast
  from save_SomeD[OF s(1)] have q: "q = p\<lparr>images := splice1 i (images p), updatedAt := now e\<rparr>"
    "preSave (p\<lparr>images := splice1 i (images p)\<rparr>)"
    "ps = map (\<lambda>x. if post_id x = post_id p then q else x) (postDocs st)" by simp_all
  show ?thesis unfolding savedAs_def
    apply (rule exI[of _ p], rule exI[of _ q])
    using f q s(2) findById_SomeD[OF f] by (auto simp: preSave_def)
qed

lemma createPost_invariant:
  assumes "createPost e st req = (resp, st')" and "is_success resp"
      and "\<forall>p \<in> set (postDocs st). storedForm p"
  shows "(\<exists>p. findById (newId e) (postDocs st') = Some p \<and> postInvariant p)
       \<and> (\<forall>q \<in> set (postDocs st'). q \<in> set (postDocs st) \<or> postInvariant q)
       \<and> (\<forall>q \<in> set (postDocs st'). storedForm q)"
proof -
  from createPost_success[OF assms(1,2)] obtain p where
    p: "st' = st\<lparr>postDocs := postDocs st @ [p]\<rparr>" "post_id p = newId e"
       "content p = map_option trim (body_content req)" "preSave p"
       "findById (newId e) (postDocs st) = None"
    by blast
  have sf: "storedForm p"
    using p(3) by (auto simp: storedForm_def trim_idem split: option.splits)
  have c: "content p = content p \<or> (\<exists>t. content p = Some (trim t))" by simp
  from saved_invariant[OF sf p(4) c] have inv: "postInvariant p" by simp
  have "findById (newId e) (postDocs st') = Some p"
    unfolding p(1) using findById_append_new[OF p(5) p(2)] by simp
  then show ?thesis using inv sf assms(3) unfolding p(1) by auto
qed

lemma failure_keeps_posts:
  assumes "\<not> is_success resp"
  shows "createPost e st req = (resp, st') \<Longrightarrow> postDocs st' = postDocs st"
    and "updatePost e st req = (resp, st') \<Longrightarrow> postDocs st' = postDocs st"
    and "deletePostImage e st req = (resp, st') \<Longrightarrow> postDocs st' = postDocs st"
    and "likePost e st req = (resp, st') \<Longrightarrow> postDocs st' = postDocs st"
    and "addComment e st req = (resp, st') \<Longrightarrow> postDocs st' = postDocs st"
  using assms
  by (auto simp: createPost_def updatePost_def deletePostImage_def likePost_def addComment_def
        Let_def split: if_splits option.splits prod.splits bool.splits)

lemma createPost_rejects:
  assumes "protect st req = Some r"
      and "emptyAfterTrim (body_content req)" and "noFiles (req_files req)"
  shows "createPost e st (createPostValidation r) = (Failure 400, st)"
proof -
  from protect_SomeD[OF assms(1)] obtain u where r: "r = req\<lparr>req_user := Some u\<rparr>" by blast
  show ?thesis
    using assms(2,3) unfolding r
    by (auto simp: createPost_def createPostValidation_def emptyAfterTrim_def
          split: option.splits)
qed

lemma updatePost_rejects:
  assumes "findById (params_id req) (postDocs st) = Some p"
      and "Some (author p) = map_option auth_id (req_user req)"
      and "set (body_imagesToDelete req) \<inter> set (unavailable (assetStore st)) = {}"
      and "storedForm p" and "\<not> postInvariant (updatedDoc req p)"
  shows "fst (updatePost e st req) = Failure 400"
proof -
  from assms(5) have e: "emptyAfterTrim (content (updatedDoc req p))"
    and i: "images (updatedDoc req p) = []"
    by (simp_all add: postInvariant_def)
  have "falsy (content (updatedDoc req p)) \<and> length (images (updatedDoc req p)) = 0"
    using falsy_updatedDoc[OF assms(4) e] i by simp
  then show ?thesis
    unfolding updatePost_steps[OF assms(1,2,3)] Let_def by simp
qed

lemma deletePostImage_rejects:
  assumes "findById (params_id req) (postDocs st) = Some p"
      and "Some (author p) = map_option auth_id (req_user req)"
      and "findIndex (\<lambda>img. publicId img = params_publicId req) (images p) = Some i"
      and "storedForm p" and "\<not> postInvariant (p\<lparr>images := splice1 i (images p)\<rparr>)"
  shows "deletePostImage e st req = (Failure 400, st)"
proof -
  from assms(5) have e: "emptyAfterTrim (content p)" and s: "splice1 i (images p) = []"
    by (simp_all add: postInvariant_def)
  from findIndex_Some[OF assms(3)] have "i < length (images p)" by simp
  with s have l: "length (images p) = 1"
    by (cases "images p") (auto simp: splice1_def)
  from e assms(4) have f: "falsy (content p)"
    by (auto simp: emptyAfterTrim_def storedForm_def split: option.splits)
  have "deletePostImage e st req =
      (case findIndex (\<lambda>img. publicId img = params_publicId req) (images p) of
                  None \<Rightarrow> (Failure 404, st)
                | Some imageIndex \<Rightarrow>
                    if falsy (content p) \<and> length (images p) = 1 then (Failure 400, st)
                    else (case deleteImage (params_publicId req) (assetStore st) of
                            (False, c) \<Rightarrow> (Failure 500, st\<lparr>assetStore := c\<rparr>)
                          | (True, c) \<Rightarrow>
                              (case save (now e) True
                                      (p\<lparr>images := splice1 imageIndex (images p)\<rparr>)
                                      (postDocs st) of
                                 None \<Rightarrow> (Failure 500, st\<lparr>assetStore := c\<rparr>)
                               | Some (p', ps) \<Rightarrow>
                                   (Success 200 (PostData p'),
                                    st\<lparr>postDocs := ps, assetStore := c\<rparr>))))"
    unfolding deletePostImage_def
    by (simp only: assms(1,2) option.case if_False not_True_eq_False simp_thms)
  then show ?thesis using f l by (simp add: assms(3))
qed

lemma outcome_unauthorised:
  assumes "protect st req = None" and "\<forall>p \<in> set (postDocs st). storedForm p"
  shows "mutationOutcome ep e st req (Failure 401) st"
  using assms by (simp add: authorised_def)

lemma outcome_createPost:
  assumes "\<forall>p \<in> set (postDocs st). storedForm p"
      and "router CreatePost e st req = (resp, st')"
  shows "mutationOutcome CreatePost e st req resp st'"
proof (cases "protect st req")
  case None
  with assms(2) have eq: "resp = Failure 401" "st' = st" by simp_all
  show ?thesis unfolding eq by (rule outcome_unauthorised[OF None assms(1)])
next
  case (Some r)
  with assms(2) have run: "createPost e st (createPostValidation r) = (resp, st')" by simp
  have a: "is_success resp \<longrightarrow>
          (\<exists>p. findById (target CreatePost e req) (postDocs st') = Some p \<and> postInvariant p)
        \<and> (\<forall>q \<in> set (postDocs st'). q \<in> set (postDocs st) \<or> postInvariant q)"
    using createPost_invariant[OF run _ assms(1)] by (simp add: target_def)
  have b: "\<not> is_success resp \<longrightarrow> postDocs st' = postDocs st"
    using failure_keeps_posts(1)[OF _ run] by blast
  have c: "wouldViolate CreatePost st req \<longrightarrow> resp = Failure 400 \<and> postDocs st' = postDocs st"
    using createPost_rejects[OF Some, of e] run by auto
  have d: "\<forall>q \<in> set (postDocs st'). storedForm q"
  proof (cases "is_success resp")
    case True
    from createPost_invariant[OF run True assms(1)] show ?thesis by simp
  next
    case False
    with b assms(1) show ?thesis by simp
  qed
  from a b c d show ?thesis by blast
qed

lemma outcome_saved:
  assumes "\<forall>p \<in> set (postDocs st). storedForm p"
      and "is_success resp \<longrightarrow> savedAs (params_id req) st st'"
      and "\<not> is_success resp \<longrightarrow> postDocs st' = postDocs st"
      and "ep \<noteq> CreatePost"
      and "wouldViolate ep st req \<and> authorised ep st req
          \<and> (ep = UpdatePost \<longrightarrow>
                set (body_imagesToDelete req) \<inter> set (unavailable (assetStore st)) = {})
        \<longrightarrow> resp = Failure 400"
  shows "mutationOutcome ep e st req resp st'"
proof (cases "is_success resp")
  case True
  with assms(2) have "savedAs (params_id req) st st'" by simp
  from savedAs_invariant[OF this assms(1)] True assms(4,5) show ?thesis
    by (auto simp: target_def)
next
  case False
  with assms(1,3,5) show ?thesis by auto
qed

lemma outcome_updatePost:
  assumes "\<forall>p \<in> set (postDocs st). storedForm p"
      and "router UpdatePost e st req = (resp, st')"
  shows "mutationOutcome UpdatePost e st req resp st'"
proof (cases "protect st req")
  case None
  with assms(2) have eq: "resp = Failure 401" "st' = st" by simp_all
  show ?thesis unfolding eq by (rule outcome_unauthorised[OF None assms(1)])
next
  case (Some r)
  from protect_SomeD[OF Some] obtain u where r: "r = req\<lparr>req_user := Some u\<rparr>" by blast
  from Some assms(2) have run: "updatePost e st r = (resp, st')" by simp
  have i: "params_id r = params_id req" by (simp add: r)
  have v: "resp = Failure 400"
    if w: "wouldViolate UpdatePost st req" and a: "authorised UpdatePost st req"
      and d: "set (body_imagesToDelete req) \<inter> set (unavailable (assetStore st)) = {}"
  proof -
    from w obtain p where p: "findById (params_id req) (postDocs st) = Some p"
      "\<not> postInvariant (updatedDoc req p)"
      by (auto split: option.splits)
    have u: "updatedDoc r p = updatedDoc req p" by (simp add: r updatedDoc_def)
    from a p(1) Some have o: "Some (author p) = map_option auth_id (req_user r)"
      by (simp add: authorised_def i)
    from p(1) have "p \<in> set (postDocs st)" using findById_SomeD by blast
    with assms(1) have sf: "storedForm p" by blast
    have d': "set (body_imagesToDelete r) \<inter> set (unavailable (assetStore st)) = {}"
      using d by (simp add: r)
    from updatePost_rejects[OF p(1)[folded i] o d' sf p(2)[folded u], of e] run
    show ?thesis by simp
  qed
  show ?thesis
    using outcome_saved[OF assms(1), of resp req st' UpdatePost e]
      updatePost_savedAs[OF run] failure_keeps_posts(2)[OF _ run] v i
    by auto
qed

lemma outcome_deletePostImage:
  assumes "\<forall>p \<in> set (postDocs st). storedForm p"
      and "router DeletePostImage e st req = (resp, st')"
  shows "mutationOutcome DeletePostImage e st req resp st'"
proof (cases "protect st req")
  case None
  with assms(2) have eq: "resp = Failure 401" "st' = st" by simp_all
  show ?thesis unfolding eq by (rule outcome_unauthorised[OF None assms(1)])
next
  case (Some r)
  from protect_SomeD[OF Some] obtain u where r: "r = req\<lparr>req_user := Some u\<rparr>" by blast
  from Some assms(2) have run: "deletePostImage e st r = (resp, st')" by simp
  have i: "params_id r = params_id req" "params_publicId r = params_publicId req"
    by (simp_all add: r)
  have v: "resp = Failure 400"
    if w: "wouldViolate DeletePostImage st req" and a: "authorised DeletePostImage st req"
  proof -
    from w obtain p k where p: "findById (params_id req) (postDocs st) = Some p"
      "findIndex (\<lambda>img. publicId img = params_publicId req) (images p) = Some k"
      "\<not> postInvariant (p\<lparr>images := splice1 k (images p)\<rparr>)"
      by (auto split: option.splits)
    from a p(1) Some have o: "Some (author p) = map_option auth_id (req_user r)"
      by (simp add: authorised_def i)
    from p(1) have "p \<in> set (postDocs st)" using findById_SomeD by blast
    with assms(1) have sf: "storedForm p" by blast
    from deletePostImage_rejects[OF p(1)[folded i(1)] o p(2)[folded i(2)] sf p(3), of e] run
    show ?thesis by simp
  qed
  show ?thesis
    using outcome_saved[OF assms(1), of resp req st' DeletePostImage e]
      deletePostImage_savedAs[OF run] failure_keeps_posts(3)[OF _ run] v i
    by auto
qed

lemma outcome_likePost:
  assumes "\<forall>p \<in> set (postDocs st). storedForm p"
      and "router LikePost e st req = (resp, st')"
  shows "mutationOutcome LikePost e st req resp st'"
proof (cases "protect st req")
  case None
  with assms(2) have eq: "resp = Failure 401" "st' = st" by simp_all
  show ?thesis unfolding eq by (rule outcome_unauthorised[OF None assms(1)])
next
  case (Some r)
  from protect_SomeD[OF Some] obtain u where r: "r = req\<lparr>req_user := Some u\<rparr>" by blast
  from Some assms(2) have run: "likePost e st r = (resp, st')" by simp
  have i: "params_id r = params_id req" by (simp add: r)
  show ?thesis
    using outcome_saved[OF assms(1), of resp req st' LikePost e]
      likePost_savedAs[OF run] failure_keeps_posts(4)[OF _ run] i
    by auto
qed

lemma outcome_addComment:
  assumes "\<forall>p \<in> set (postDocs st). storedForm p"
      and "router AddComment e st req = (resp, st')"
  shows "mutationOutcome AddComment e st req resp st'"
proof (cases "protect st req")
  case None
  with assms(2) have eq: "resp = Failure 401" "st' = st" by simp_all
  show ?thesis unfolding eq by (rule outcome_unauthorised[OF None assms(1)])
next
  case (Some r)
  from protect_SomeD[OF Some] obtain u where r: "r = req\<lparr>req_user := Some u\<rparr>" by blast
  from Some assms(2) have run: "addComment e st (commentValidation r) = (resp, st')" by simp
  have i: "params_id (commentValidation r) = params_id req"
    by (simp add: r commentValidation_def Let_def)
  show ?thesis
    using outcome_saved[OF assms(1), of resp req st' AddComment e]
      addComment_savedAs[OF run] failure_keeps_posts(5)[OF _ run] i
    by auto
qed

text \<open>
  C1. Take a collection whose contents are in the form the schema's trim setter
  writes, and one of the five mutating routes. When the route answers with
  success, the post it has written has a content that is not empty after trimming
  or has an image, every other post is as it was, and the contents are still in
  the stored form. When it answers with a failure, the collection is unchanged.
  When the mutation would leave the post without content and without image, the
  requester being authenticated (and the owner, for an update or an image
  deletion) and the deletion requests of an update succeeding, the answer is 400
  and the collection is unchanged.
\<close>

theorem C1_content_or_images:
  assumes "ep \<in> {CreatePost, UpdatePost, DeletePostImage, LikePost, AddComment}"
      and "\<forall>p \<in> set (postDocs st). storedForm p"
      and "router ep e st req = (resp, st')"
  shows "(is_success resp \<longrightarrow>
            (\<exists>p. findById (target ep e req) (postDocs st') = Some p \<and> postInvariant p)
          \<and> (\<forall>q \<in> set (postDocs st'). q \<in> set (postDocs st) \<or> postInvariant q))
       \<and> (\<not> is_success resp \<longrightarrow> postDocs st' = postDocs st)
       \<and> (wouldViolate ep st req \<and> authorised ep st req
            \<and> (ep = UpdatePost \<longrightarrow>
                  set (body_imagesToDelete req) \<inter> set (unavailable (assetStore st)) = {})
          \<longrightarrow> resp = Failure 400 \<and> postDocs st' = postDocs st)
       \<and> (\<forall>q \<in> set (postDocs st'). storedForm q)"
proof -
  from assms(1) consider "ep = CreatePost" | "ep = UpdatePost" | "ep = DeletePostImage"
    | "ep = LikePost" | "ep = AddComment" by auto
  then show ?thesis
  proof cases
    case 1
    with outcome_createPost[OF assms(2)] assms(3) show ?thesis by blast
  next
    case 2
    with outcome_updatePost[OF assms(2)] assms(3) show ?thesis by blast
  next
    case 3
    with outcome_deletePostImage[OF assms(2)] assms(3) show ?thesis by blast
  next
    case 4
    with outcome_likePost[OF assms(2)] assms(3) show ?thesis by blast
  next
    case 5
    with outcome_addComment[OF assms(2)] assms(3) show ?thesis by blast
  qed
qed

theorem C1_content_or_images_witness:
  "is_success (fst (router CreatePost \<lparr>now = 70, newId = 8\<rparr> emptyState imagesOnlyReq))
   \<and> (\<exists>p. findById 8 (postDocs (snd (router CreatePost \<lparr>now = 70, newId = 8\<rparr> emptyState
                                         imagesOnlyReq))) = Some p
          \<and> postInvariant p \<and> content p = None \<and> images p = [img ''p''])
   \<and> wouldViolate CreatePost emptyState blankPostReq
   \<and> authorised CreatePost emptyState blankPostReq
   \<and> router CreatePost \<lparr>now = 70, newId = 8\<rparr> emptyState blankPostReq = (Failure 400, emptyState)
   \<and> wouldViolate UpdatePost galleryState emptyingReq
   \<and> authorised UpdatePost galleryState emptyingReq
   \<and> fst (router UpdatePost \<lparr>now = 70, newId = 8\<rparr> galleryState emptyingReq) = Failure 400
   \<and> postDocs (snd (router UpdatePost \<lparr>now = 70, newId = 8\<rparr> galleryState emptyingReq))
       = postDocs galleryState"
proof -
  let ?e = "\<lparr>now = 70, newId = 8\<rparr>"
  let ?a = "router CreatePost ?e emptyState imagesOnlyReq"
  let ?b = "router CreatePost ?e emptyState blankPostReq"
  let ?c = "router UpdatePost ?e galleryState emptyingReq"
  have m: "CreatePost \<in> {CreatePost, UpdatePost, DeletePostImage, LikePost, AddComment}"
          "UpdatePost \<in> {CreatePost, UpdatePost, DeletePostImage, LikePost, AddComment}"
    by simp_all
  have s0: "\<forall>p \<in> set (postDocs emptyState). storedForm p" by (simp add: example_defs)
  have s1: "\<forall>p \<in> set (postDocs galleryState). storedForm p"
    by (simp add: example_defs property_defs trim_def is_space_def)
  have a1: "is_success (fst ?a)"
    by (simp add: example_defs property_defs model_defs protect_def createPostValidation_def)
  have a2: "postDocs (snd ?a) = [(alicePost 8 70 None [img ''p''])
                                   \<lparr>author := 2, authorUsername := ''bob'',
                                    authorProfilePicture := ''b.png''\<rparr>]"
    by (simp add: example_defs property_defs model_defs protect_def createPostValidation_def)
  have b1: "wouldViolate CreatePost emptyState blankPostReq"
    by (simp add: example_defs property_defs property_defs noFiles_def trim_def is_space_def)
  have b2: "authorised CreatePost emptyState blankPostReq"
    by (simp add: example_defs property_defs authorised_def protect_def findUserById_def)
  have c1: "wouldViolate UpdatePost galleryState emptyingReq"
    by (simp add: example_defs property_defs property_defs findById_def trim_def is_space_def)
  have c2: "authorised UpdatePost galleryState emptyingReq"
    by (simp add: example_defs property_defs authorised_def protect_def findUserById_def findById_def)
  have c3: "set (body_imagesToDelete emptyingReq) \<inter> set (unavailable (assetStore galleryState)) = {}"
    by (simp add: example_defs property_defs)
  from C1_content_or_images[OF m(1) s0, of ?e imagesOnlyReq "fst ?a" "snd ?a"] a1
  have "\<exists>p. findById (target CreatePost ?e imagesOnlyReq) (postDocs (snd ?a)) = Some p \<and> postInvariant p"
    by simp
  then have a3: "\<exists>p. findById 8 (postDocs (snd ?a)) = Some p
          \<and> postInvariant p \<and> content p = None \<and> images p = [img ''p'']"
    unfolding a2 by (auto simp: target_def findById_def example_defs)
  from C1_content_or_images[OF m(1) s0, of ?e blankPostReq "fst ?b" "snd ?b"] b1 b2
  have "fst ?b = Failure 400 \<and> postDocs (snd ?b) = postDocs emptyState" by simp
  moreover have "userDocs (snd ?b) = userDocs emptyState \<and> assetStore (snd ?b) = assetStore emptyState
      \<and> sortStage (snd ?b) = sortStage emptyState"
    by (simp add: example_defs property_defs model_defs protect_def createPostValidation_def)
  ultimately have b3: "?b = (Failure 400, emptyState)"
    by (intro prod_eqI state.equality) simp_all
  from C1_content_or_images[OF m(2) s1, of ?e emptyingReq "fst ?c" "snd ?c"] c1 c2 c3
  have c4: "fst ?c = Failure 400 \<and> postDocs (snd ?c) = postDocs galleryState" by simp
  from a1 a3 b1 b2 b3 c1 c2 c4 show ?thesis by blast
qed

end
